(* ===== verification/Prelude.thy ===== *)
theory Prelude
  imports Main "HOL-Library.AList" "HOL-Library.Char_ord" "HOL-Library.List_Lexorder"
begin

text \<open>
  The part of the Go language and of its standard library that the components share:
  strings as byte sequences (package \<open>strings\<close>), UTF-8 rune counting
  (\<open>unicode/utf8\<close>), decimal conversion (\<open>strconv\<close>) and 64-bit signed arithmetic.
  A Go string is a sequence of bytes, so it is a \<^typ>\<open>string\<close> here, one \<^typ>\<open>char\<close>
  per byte.  An \<open>int64\<close> (and an \<open>int\<close>, which has 64 bits on the platforms the image is
  built for) is an \<^typ>\<open>int\<close>; the additions that can overflow are wrapped with
  \<open>wrap64\<close>.

  Lemma collections: \<open>str_simps\<close> rewrites string operations on inputs of a known
  shape, \<open>fs_simps\<close> rewrites lookups after directory updates.
\<close>

named_theorems str_simps "rewriting rules for the string operations"
named_theorems fs_simps "rewriting rules for directory lookups"

section \<open>Prefixes, suffixes, search\<close>

definition has_prefix :: "string \<Rightarrow> string \<Rightarrow> bool" where
  "has_prefix s pre \<longleftrightarrow> take (length pre) s = pre"

definition has_suffix :: "string \<Rightarrow> string \<Rightarrow> bool" where
  "has_suffix s suf \<longleftrightarrow> has_prefix (rev s) (rev suf)"

fun contains :: "string \<Rightarrow> string \<Rightarrow> bool" where
  "contains [] sub = (sub = [])"
| "contains (c # cs) sub = (has_prefix (c # cs) sub \<or> contains cs sub)"

lemma has_prefix_append [simp, str_simps]: "has_prefix (p @ s) p"
  by (simp add: has_prefix_def)

lemma has_prefix_simps [simp, str_simps]:
  "has_prefix s []" "has_prefix [] (d # p) \<longleftrightarrow> False"
  "has_prefix (c # s) (d # p) \<longleftrightarrow> c = d \<and> has_prefix s p"
  by (simp_all add: has_prefix_def)

lemma has_prefix_conv: "has_prefix s p \<longleftrightarrow> (\<exists>t. s = p @ t)"
  by (metis has_prefix_def append_take_drop_id append_eq_conv_conj)

lemma has_suffix_append [simp, str_simps]: "has_suffix (s @ p) p"
  by (simp add: has_suffix_def)

lemma has_suffix_conv: "has_suffix s p \<longleftrightarrow> (\<exists>t. s = t @ p)"
  unfolding has_suffix_def has_prefix_conv by (metis rev_append rev_rev_ident)

lemma contains_single [simp, str_simps]: "contains s [c] \<longleftrightarrow> c \<in> set s"
  by (induction s) (auto simp: has_prefix_def)

lemma contains_conv: "contains s sub \<longleftrightarrow> (\<exists>a b. s = a @ sub @ b)"
proof (induction s)
  case (Cons c cs)
  show ?case
  proof
    assume "contains (c # cs) sub"
    then consider t where "c # cs = sub @ t" | a b where "cs = a @ sub @ b"
      using Cons.IH by (auto simp: has_prefix_conv)
    then show "\<exists>a b. c # cs = a @ sub @ b"
      by cases (metis append_Nil, metis append_Cons)
  next
    assume "\<exists>a b. c # cs = a @ sub @ b"
    then obtain a b where "c # cs = a @ sub @ b" by blast
    then have "has_prefix (c # cs) sub \<or> (\<exists>a b. cs = a @ sub @ b)"
      by (cases a) (simp, auto)
    then show "contains (c # cs) sub"
      using Cons.IH by simp
  qed
qed auto

section \<open>White space: strings.TrimSpace\<close>

text \<open>
  \<open>space_width s\<close> is the number of bytes of the white-space rune at the front of
  \<open>s\<close>, 0 when there is none: the ASCII blanks, U+0085 and U+00A0 (two bytes), U+1680,
  U+2000 to U+200A, U+2028, U+2029, U+202F, U+205F and U+3000 (three bytes).
  \<open>space_width_end\<close> reads the same encodings from the end of a reversed string.
\<close>

definition ascii_spaces :: string where
  "ascii_spaces = [CHR 0x09, CHR 0x0A, CHR 0x0B, CHR 0x0C, CHR 0x0D, CHR 0x20]"

definition wide_spaces :: "string list" where
  "wide_spaces = [[CHR 0xC2, CHR 0x85], [CHR 0xC2, CHR 0xA0], [CHR 0xE1, CHR 0x9A, CHR 0x80],
     [CHR 0xE2, CHR 0x80, CHR 0x80], [CHR 0xE2, CHR 0x80, CHR 0x81], [CHR 0xE2, CHR 0x80, CHR 0x82],
     [CHR 0xE2, CHR 0x80, CHR 0x83], [CHR 0xE2, CHR 0x80, CHR 0x84], [CHR 0xE2, CHR 0x80, CHR 0x85],
     [CHR 0xE2, CHR 0x80, CHR 0x86], [CHR 0xE2, CHR 0x80, CHR 0x87], [CHR 0xE2, CHR 0x80, CHR 0x88],
     [CHR 0xE2, CHR 0x80, CHR 0x89], [CHR 0xE2, CHR 0x80, CHR 0x8A], [CHR 0xE2, CHR 0x80, CHR 0xA8],
     [CHR 0xE2, CHR 0x80, CHR 0xA9], [CHR 0xE2, CHR 0x80, CHR 0xAF], [CHR 0xE2, CHR 0x81, CHR 0x9F],
     [CHR 0xE3, CHR 0x80, CHR 0x80]]"

definition space_width_in :: "string list \<Rightarrow> string \<Rightarrow> nat" where
  "space_width_in wide s =
     (case s of [] \<Rightarrow> 0
      | c # _ \<Rightarrow> if c \<in> set ascii_spaces then 1
                else (case List.find (has_prefix s) wide of None \<Rightarrow> 0 | Some w \<Rightarrow> length w))"

definition space_width :: "string \<Rightarrow> nat" where
  "space_width = space_width_in wide_spaces"

definition space_width_end :: "string \<Rightarrow> nat" where
  "space_width_end = space_width_in (map rev wide_spaces)"

function trim_by :: "(string \<Rightarrow> nat) \<Rightarrow> string \<Rightarrow> string" where
  "trim_by w s = (if s = [] \<or> w s = 0 then s else trim_by w (drop (w s) s))"
  by pat_completeness auto
termination
  by (relation "measure (\<lambda>(w, s). length s)") auto

declare trim_by.simps [simp del]

definition trim_space :: "string \<Rightarrow> string" where
  "trim_space s = rev (trim_by space_width_end (rev (trim_by space_width s)))"

text \<open>A byte that begins or ends no white-space rune.\<close>

definition solid :: "char \<Rightarrow> bool" where
  "solid c \<longleftrightarrow> c \<notin> set ascii_spaces \<and> list_all (\<lambda>w. c \<noteq> hd w \<and> c \<noteq> last w) wide_spaces"

lemma trim_by_stop [simp]: "w s = 0 \<Longrightarrow> trim_by w s = s"
  by (simp add: trim_by.simps)

lemma trim_by_step: "s \<noteq> [] \<Longrightarrow> w s \<noteq> 0 \<Longrightarrow> trim_by w s = trim_by w (drop (w s) s)"
  by (subst trim_by.simps) simp

lemma trim_by_Nil [simp]: "trim_by w [] = []"
  by (simp add: trim_by.simps)

lemma find_prefix_None:
  "list_all (\<lambda>w. w \<noteq> [] \<and> hd w \<noteq> c) ws \<Longrightarrow> List.find (has_prefix (c # s)) ws = None"
  by (induction ws) (auto simp: has_prefix_def neq_Nil_conv)

lemma space_width_solid [str_simps]: "solid c \<Longrightarrow> space_width (c # s) = 0"
  by (simp add: space_width_def space_width_in_def solid_def)
     (subst find_prefix_None; auto simp: wide_spaces_def)

lemma space_width_end_solid [str_simps]: "solid c \<Longrightarrow> space_width_end (c # s) = 0"
  by (simp add: space_width_end_def space_width_in_def solid_def)
     (subst find_prefix_None; auto simp: wide_spaces_def)

lemma trim_space_Nil [simp, str_simps]: "trim_space [] = []"
  by (simp add: trim_space_def)

lemma rev_by_last: "s \<noteq> [] \<Longrightarrow> rev s = last s # rev (butlast s)"
  by (metis append_butlast_last_id rev_eq_Cons_iff rev_rev_ident)

text \<open>Nothing is trimmed from a string whose first and last bytes are solid.\<close>

lemma trim_space_solid:
  assumes "s \<noteq> []" and "solid (hd s)" and "solid (last s)"
  shows "trim_space s = s"
proof -
  from assms obtain c t where s: "s = c # t" by (cases s) auto
  have "trim_by space_width s = s"
    using assms s by (simp add: space_width_solid)
  moreover have "trim_by space_width_end (rev s) = rev s"
    unfolding rev_by_last [OF assms(1)] using assms(3) by (simp add: space_width_end_solid)
  ultimately show ?thesis by (simp add: trim_space_def)
qed

text \<open>A trailing newline after a solid byte is what a sidecar file holds.\<close>

lemma trim_space_newline:
  assumes "s \<noteq> []" and "solid (hd s)" and "solid (last s)"
  shows "trim_space (s @ [CHR 0x0A]) = s"
proof -
  from assms obtain c t where s: "s = c # t" by (cases s) auto
  have left: "trim_by space_width (s @ [CHR 0x0A]) = s @ [CHR 0x0A]"
    using assms s by (simp add: space_width_solid)
  have "space_width_end (CHR 0x0A # rev s) = 1"
    by (simp add: space_width_end_def space_width_in_def ascii_spaces_def)
  then have "trim_by space_width_end (CHR 0x0A # rev s) = trim_by space_width_end (rev s)"
    by (subst trim_by_step) simp_all
  also have "\<dots> = rev s"
    unfolding rev_by_last [OF assms(1)] using assms(3) by (simp add: space_width_end_solid)
  finally show ?thesis by (simp add: trim_space_def left)
qed

text \<open>Trimming twice is trimming once.\<close>

lemma trim_by_exhaust: "trim_by w s = [] \<or> w (trim_by w s) = 0"
proof (induction w s rule: trim_by.induct)
  case (1 w s)
  then show ?case
    by (cases "s = [] \<or> w s = 0") (auto simp: trim_by.simps [of w s])
qed

lemma trim_by_suffix: "\<exists>p. s = p @ trim_by w s"
proof (induction w s rule: trim_by.induct)
  case (1 w s)
  show ?case
  proof (cases "s = [] \<or> w s = 0")
    case False
    with 1 obtain p where "drop (w s) s = p @ trim_by w (drop (w s) s)" by blast
    then have "s = (take (w s) s @ p) @ trim_by w (drop (w s) s)"
      by (metis append.assoc append_take_drop_id)
    with False show ?thesis by (metis trim_by_step)
  qed (auto simp: trim_by.simps [of w s])
qed

lemma space_width_in_Nil [simp]: "space_width_in wide [] = 0"
  by (simp add: space_width_in_def)

lemma space_width_in_prefix:
  assumes "space_width_in wide (s @ t) = 0" and "[] \<notin> set wide"
  shows "space_width_in wide s = 0"
proof (cases s)
  case (Cons c r)
  have none: "List.find (has_prefix (s @ t)) wide = None"
  proof (cases "List.find (has_prefix (s @ t)) wide")
    case (Some w)
    then have "w \<in> set wide" by (auto simp: find_Some_iff)
    with assms(2) have "w \<noteq> []" by auto
    with Some assms(1) Cons show ?thesis by (simp add: space_width_in_def split: if_splits)
  qed
  have "List.find (has_prefix s) wide = None"
  proof (rule ccontr)
    assume "List.find (has_prefix s) wide \<noteq> None"
    then obtain w where "w \<in> set wide" "has_prefix s w" by (auto simp: find_None_iff)
    then have "has_prefix (s @ t) w" by (auto simp: has_prefix_conv)
    with \<open>w \<in> set wide\<close> none show False by (auto simp: find_None_iff)
  qed
  with assms Cons show ?thesis by (auto simp: space_width_in_def split: if_splits)
qed simp

lemma trim_space_ends:
  "space_width (trim_space s) = 0" "space_width_end (rev (trim_space s)) = 0"
proof -
  let ?l = "trim_by space_width s"
  let ?r = "trim_by space_width_end (rev ?l)"
  obtain p where p: "rev ?l = p @ ?r" using trim_by_suffix by blast
  then have l: "?l = rev ?r @ rev p" by (metis rev_append rev_rev_ident)
  have "space_width ?l = 0"
    using trim_by_exhaust [of space_width s] by (auto simp: space_width_def)
  then have "space_width (rev ?r) = 0"
    using l space_width_in_prefix [of wide_spaces "rev ?r" "rev p"]
    by (simp add: space_width_def wide_spaces_def)
  moreover have "space_width_end ?r = 0"
    using trim_by_exhaust [of space_width_end "rev ?l"] by (auto simp: space_width_end_def)
  ultimately show "space_width (trim_space s) = 0" "space_width_end (rev (trim_space s)) = 0"
    by (simp_all add: trim_space_def)
qed

lemmas space_width_trim_space = trim_space_ends(1)

lemma trim_space_idem [simp]: "trim_space (trim_space s) = trim_space s"
  using trim_space_ends [of s] by (simp add: trim_space_def [of "trim_space s"])

section \<open>Case, replacement, splitting\<close>

text \<open>
  \<open>strings.ToLower\<close> on the ASCII letters.  The other letters whose lower case is ASCII
  are U+0130 (lower case i) and U+212A (lower case k), and no keyword the program compares a
  lowered string with contains an i or a k, so leaving their bytes alone gives the same
  comparisons.
\<close>

definition to_lower_char :: "char \<Rightarrow> char" where
  "to_lower_char c = (if CHR ''A'' \<le> c \<and> c \<le> CHR ''Z'' then char_of (of_char c + (32::nat)) else c)"

definition to_lower :: "string \<Rightarrow> string" where
  "to_lower = map to_lower_char"

text \<open>
  \<open>foldName\<close> of \<open>encoding/json\<close>, as far as it decides which field with an ASCII name a key selects:
  besides the cases of the ASCII letters, U+017F folds to s and U+212A to k.
\<close>

fun fold_wide :: "string \<Rightarrow> string" where
  "fold_wide [] = []"
| "fold_wide (c # s) =
     (if has_prefix (c # s) [CHR 0xC5, CHR 0xBF] then CHR ''s'' # fold_wide (drop 1 s)
      else if has_prefix (c # s) [CHR 0xE2, CHR 0x84, CHR 0xAA] then CHR ''k'' # fold_wide (drop 2 s)
      else c # fold_wide s)"

definition fold_key :: "string \<Rightarrow> string" where
  "fold_key s = to_lower (fold_wide s)"

text \<open>\<open>strings.ReplaceAll(s, " ", "")\<close>.\<close>

definition remove_blanks :: "string \<Rightarrow> string" where
  "remove_blanks = filter (\<lambda>c. c \<noteq> CHR 0x20)"

text \<open>\<open>strings.Split\<close> by a one-byte separator: never the empty list.\<close>

fun split_on :: "char \<Rightarrow> string \<Rightarrow> string list" where
  "split_on sep [] = [[]]"
| "split_on sep (c # cs) =
     (if c = sep then [] # split_on sep cs
      else (case split_on sep cs of [] \<Rightarrow> [[c]] | w # ws \<Rightarrow> (c # w) # ws))"

fun join_with :: "char \<Rightarrow> string list \<Rightarrow> string" where
  "join_with sep [] = []"
| "join_with sep [w] = w"
| "join_with sep (w # ws) = w @ sep # join_with sep ws"

lemma split_on_not_Nil [simp]: "split_on sep s \<noteq> []"
  by (cases s) (auto split: list.splits)

lemma join_split: "join_with sep (split_on sep s) = s"
proof (induction s)
  case (Cons c cs)
  then show ?case
    by (cases "split_on sep cs"; cases "tl (split_on sep cs)") auto
qed simp

lemma split_on_absent: "sep \<notin> set s \<Longrightarrow> split_on sep s = [s]"
  by (induction s) auto

lemma split_on_append: "sep \<notin> set s \<Longrightarrow> split_on sep (s @ sep # t) = s # split_on sep t"
  by (induction s) auto

lemma split_on_parts: "w \<in> set (split_on sep s) \<Longrightarrow> sep \<notin> set w"
  by (induction s arbitrary: w) (auto split: if_splits list.splits)

section \<open>Runes: utf8.RuneCountInString\<close>

text \<open>
  \<open>rune_len s\<close> is the number of bytes of the first rune of a non-empty \<open>s\<close>: 2, 3
  or 4 for a well-formed multi-byte encoding (no overlong forms, no surrogates, at most
  U+10FFFF), and 1 for an ASCII byte or for a byte that begins no well-formed encoding.
\<close>

definition in_range :: "char \<Rightarrow> nat \<Rightarrow> nat \<Rightarrow> bool" where
  "in_range c lo hi \<longleftrightarrow> lo \<le> of_char c \<and> of_char c \<le> hi"

definition rune_len :: "string \<Rightarrow> nat" where
  "rune_len s =
     (case s of
        c0 # c1 # r \<Rightarrow>
          if in_range c0 0xC2 0xDF \<and> in_range c1 0x80 0xBF then 2
          else (case r of
                  c2 # r' \<Rightarrow>
                    if (in_range c0 0xE0 0xE0 \<and> in_range c1 0xA0 0xBF
                        \<or> in_range c0 0xE1 0xEC \<and> in_range c1 0x80 0xBF
                        \<or> in_range c0 0xED 0xED \<and> in_range c1 0x80 0x9F
                        \<or> in_range c0 0xEE 0xEF \<and> in_range c1 0x80 0xBF) \<and> in_range c2 0x80 0xBF then 3
                    else (case r' of
                            c3 # _ \<Rightarrow>
                              if (in_range c0 0xF0 0xF0 \<and> in_range c1 0x90 0xBF
                                  \<or> in_range c0 0xF1 0xF3 \<and> in_range c1 0x80 0xBF
                                  \<or> in_range c0 0xF4 0xF4 \<and> in_range c1 0x80 0x8F)
                                 \<and> in_range c2 0x80 0xBF \<and> in_range c3 0x80 0xBF then 4 else 1
                          | [] \<Rightarrow> 1)
                | [] \<Rightarrow> 1)
      | _ \<Rightarrow> 1)"

lemma rune_len_pos: "0 < rune_len s"
  by (auto simp: rune_len_def split: list.splits)

function rune_count :: "string \<Rightarrow> nat" where
  "rune_count s = (if s = [] then 0 else Suc (rune_count (drop (rune_len s) s)))"
  by pat_completeness auto
termination
  by (relation "measure length") (auto simp: rune_len_pos)

declare rune_count.simps [simp del]

lemma rune_len_ascii: "of_char c < (0x80::nat) \<Longrightarrow> rune_len (c # s) = 1"
  by (auto simp: rune_len_def in_range_def split: list.splits)

text \<open>On ASCII strings runes are bytes.\<close>

lemma rune_count_ascii: "list_all (\<lambda>c. of_char c < (0x80::nat)) s \<Longrightarrow> rune_count s = length s"
  by (induction s) (simp_all add: rune_count.simps rune_len_ascii)

text \<open>
  What \<open>encoding/json\<close> does to a string: every byte that belongs to no well-formed rune
  becomes U+FFFD.
\<close>

function utf8_fix :: "string \<Rightarrow> string" where
  "utf8_fix s =
     (if s = [] then []
      else if rune_len s = 1 \<and> (0x80::nat) \<le> of_char (hd s)
        then [CHR 0xEF, CHR 0xBF, CHR 0xBD] @ utf8_fix (tl s)
      else take (rune_len s) s @ utf8_fix (drop (rune_len s) s))"
  by pat_completeness auto
termination
  by (relation "measure length") (auto simp: rune_len_pos)

declare utf8_fix.simps [simp del]

definition valid_utf8 :: "string \<Rightarrow> bool" where
  "valid_utf8 s \<longleftrightarrow> utf8_fix s = s"

lemma valid_utf8_ascii: "list_all (\<lambda>c. of_char c < (0x80::nat)) s \<Longrightarrow> valid_utf8 s"
  unfolding valid_utf8_def by (induction s) (simp_all add: utf8_fix.simps rune_len_ascii)

section \<open>64-bit integers and decimal conversion: strconv\<close>

definition wrap64 :: "int \<Rightarrow> int" where
  "wrap64 x = (x + 2 ^ 63) mod 2 ^ 64 - 2 ^ 63"

definition int64 :: "int \<Rightarrow> bool" where
  "int64 x \<longleftrightarrow> - (2 ^ 63) \<le> x \<and> x < 2 ^ 63"

abbreviation max_int64 :: int where "max_int64 \<equiv> 9223372036854775807"

lemma wrap64_int64 [simp]: "int64 (wrap64 x)"
  by (simp add: wrap64_def int64_def)

lemma wrap64_id: "int64 x \<Longrightarrow> wrap64 x = x"
  by (simp add: wrap64_def int64_def)

text \<open>
  \<open>strconv.ParseInt(s, 10, 64)\<close> and \<open>strconv.Atoi\<close>: an optional sign, then at least
  one decimal digit and nothing else; \<open>None\<close> is the error (\<open>ErrSyntax\<close> or
  \<open>ErrRange\<close>).
\<close>

definition digit_val :: "char \<Rightarrow> nat option" where
  "digit_val c = (if in_range c 48 57 then Some (of_char c - 48) else None)"

fun digits_val :: "nat \<Rightarrow> string \<Rightarrow> nat option" where
  "digits_val acc [] = Some acc"
| "digits_val acc (c # cs) =
     (case digit_val c of None \<Rightarrow> None | Some d \<Rightarrow> digits_val (10 * acc + d) cs)"

definition parse_uint :: "string \<Rightarrow> nat option" where
  "parse_uint s = (if s = [] then None else digits_val 0 s)"

definition parse_int64 :: "string \<Rightarrow> int option" where
  "parse_int64 s =
     (let neg = has_prefix s ''-'';
          rest = (if has_prefix s ''-'' \<or> has_prefix s ''+'' then tl s else s)
      in case parse_uint rest of
           None \<Rightarrow> None
         | Some u \<Rightarrow> (let v = (if neg then - int u else int u)
                     in if int64 v then Some v else None))"

fun nat_digits :: "nat \<Rightarrow> string" where
  "nat_digits n = (if n < 10 then [char_of (48 + n)]
                   else nat_digits (n div 10) @ [char_of (48 + n mod 10)])"

declare nat_digits.simps [simp del]

text \<open>\<open>strconv.Itoa\<close> and \<open>strconv.FormatInt(n, 10)\<close>.\<close>

definition itoa :: "int \<Rightarrow> string" where
  "itoa n = (if n < 0 then CHR ''-'' # nat_digits (nat (- n)) else nat_digits (nat n))"

lemma digits_val_append:
  "digits_val acc (s @ t) = (case digits_val acc s of None \<Rightarrow> None | Some a \<Rightarrow> digits_val a t)"
  by (induction s arbitrary: acc) (auto split: option.splits)

lemma digit_val_char_of: "d < 10 \<Longrightarrow> digit_val (char_of (48 + d)) = Some d"
  by (simp add: digit_val_def in_range_def)

lemma digits_val_nat_digits: "digits_val 0 (nat_digits n) = Some n"
proof (induction n rule: nat_digits.induct)
  case (1 n)
  then show ?case
    by (cases "n < 10")
       (simp_all add: nat_digits.simps [of n] digits_val_append digit_val_char_of)
qed

lemma nat_digits_nonempty [simp]: "nat_digits n \<noteq> []"
  by (subst nat_digits.simps) simp

lemma nat_digits_chars: "c \<in> set (nat_digits n) \<Longrightarrow> in_range c 48 57"
proof (induction n rule: nat_digits.induct)
  case (1 n)
  then show ?case
    by (cases "n < 10") (auto simp: nat_digits.simps [of n] in_range_def)
qed

lemma nat_digits_inj: "nat_digits m = nat_digits n \<Longrightarrow> m = n"
  by (metis digits_val_nat_digits option.inject)

lemma nat_digits_no_sign:
  "\<not> has_prefix (nat_digits n) ''-''" "\<not> has_prefix (nat_digits n) ''+''"
proof -
  obtain c cs where eq: "nat_digits n = c # cs"
    using nat_digits_nonempty by (cases "nat_digits n") auto
  then have "in_range c 48 57" using nat_digits_chars [of c n] by simp
  then have "c \<noteq> CHR ''-''" "c \<noteq> CHR ''+''" by (auto simp: in_range_def)
  with eq show "\<not> has_prefix (nat_digits n) ''-''" "\<not> has_prefix (nat_digits n) ''+''"
    by simp_all
qed

text \<open>Printing then parsing gives the number back.\<close>

lemma parse_itoa: "int64 n \<Longrightarrow> parse_int64 (itoa n) = Some n"
  by (simp add: parse_int64_def itoa_def parse_uint_def nat_digits_no_sign
      digits_val_nat_digits Let_def)

section \<open>Errors\<close>

text \<open>
  An error value: a sentinel (a package variable that \<open>errors.Is\<close> looks for), a message made
  by \<open>fmt.Errorf\<close> without \<open>%w\<close>, an error of the operating system or of a library named by the
  failing call, or an error wrapped with \<open>%w\<close> under a prefix.
\<close>

datatype 's gerror =
    Sentinel 's
  | Message string
  | SysErr string
  | Wrapped string "'s gerror"

fun errors_is :: "'s gerror \<Rightarrow> 's \<Rightarrow> bool" where
  "errors_is (Sentinel t) s = (t = s)"
| "errors_is (Message _) s = False"
| "errors_is (SysErr _) s = False"
| "errors_is (Wrapped _ e) s = errors_is e s"

section \<open>Hexadecimal text\<close>

definition hex_digit :: "nat \<Rightarrow> char" where
  "hex_digit n = (if n < 10 then char_of (48 + n) else char_of (87 + n))"

definition hex_encode :: "string \<Rightarrow> string" where
  "hex_encode bs = concat (map (\<lambda>b. [hex_digit (of_char b div 16), hex_digit (of_char b mod 16)]) bs)"

lemma solid_ascii: "33 \<le> (of_char c :: nat) \<Longrightarrow> of_char c < (128::nat) \<Longrightarrow> solid c"
  by (auto simp: solid_def ascii_spaces_def wide_spaces_def)

lemma hex_digit_solid: "n < 16 \<Longrightarrow> solid (hex_digit n)"
  by (rule solid_ascii) (auto simp: hex_digit_def)

lemma hex_encode_solid: "c \<in> set (hex_encode bs) \<Longrightarrow> solid c"
  by (auto simp: hex_encode_def intro!: hex_digit_solid less_mult_imp_div_less)

text \<open>What a sidecar file holds is read back as the checksum.\<close>

lemma trim_hex_newline: "trim_space (hex_encode bs @ [CHR 0x0A]) = hex_encode bs"
proof (cases "hex_encode bs = []")
  case True
  have "trim_space [CHR 0x0A] = []" by code_simp
  with True show ?thesis by simp
next
  case False
  then show ?thesis by (intro trim_space_newline hex_encode_solid [of _ bs]) (simp_all)
qed

section \<open>Operations that touch few keys\<close>

text \<open>
  The interface between a keyed state and a client that runs many operations on it: each
  operation declares the keys it may touch and leaves the present value of every other key
  alone.  Then so does any sequence of operations.
\<close>

locale framed =
  fixes step :: "'op \<Rightarrow> 's \<Rightarrow> 's"
    and get :: "'s \<Rightarrow> 'k \<Rightarrow> 'v option"
    and touches :: "'op \<Rightarrow> 'k \<Rightarrow> bool"
  assumes frame: "get s k = Some v \<Longrightarrow> \<not> touches op k \<Longrightarrow> get (step op s) k = Some v"
begin

lemma frame_all:
  "get s k = Some v \<Longrightarrow> list_all (\<lambda>op. \<not> touches op k) ops \<Longrightarrow> get (fold step ops s) k = Some v"
  by (induction ops arbitrary: s) (simp_all add: frame)

end

section \<open>Transition systems\<close>

text \<open>
  The interface of a step function with an invariant, under a condition on the events that
  the environment meets: every run of such events keeps it.
\<close>

locale invariant_system =
  fixes next_state :: "'e \<Rightarrow> 's \<Rightarrow> 's"
    and inv :: "'s \<Rightarrow> bool"
    and admissible :: "'e \<Rightarrow> bool"
  assumes step_inv: "inv s \<Longrightarrow> admissible e \<Longrightarrow> inv (next_state e s)"
begin

lemma run_inv: "inv s \<Longrightarrow> list_all admissible es \<Longrightarrow> inv (fold next_state es s)"
  by (induction es arbitrary: s) (simp_all add: step_inv)

end

end
