(* ===== verification/Config.thy ===== *)
theory Config
  imports Prelude "HOL-Library.Word"
begin

text \<open>
  Package \<open>internal/config\<close> (\<open>config.go\<close>): the runtime configuration read from the
  environment.  The environment is a function from variable names to values, the empty string
  standing for an unset variable (\<open>os.Getenv\<close>).  The cipher-suite tables of
  \<open>crypto/tls\<close>, which differ between Go releases, are the arguments \<open>suites\<close> and
  \<open>insecure\<close>.
\<close>

section \<open>Constants\<close>

type_synonym u16 = "16 word"
type_synonym environ = "string \<Rightarrow> string"
type_synonym suite_table = "(string \<times> u16) list"

definition default_http_addr :: string where "default_http_addr = '':8080''"
definition default_https_addr :: string where "default_https_addr = '':8443''"
definition default_tls_cert_file :: string where "default_tls_cert_file = ''/certs/tls.crt''"
definition default_tls_key_file :: string where "default_tls_key_file = ''/certs/tls.key''"
definition default_tls_ca_file :: string where "default_tls_ca_file = ''/certs/ca.crt''"
definition default_tls_ca_dir :: string where "default_tls_ca_dir = ''/etc/pki/internal-ca''"
definition default_tls_ca_bundle :: string where "default_tls_ca_bundle = ''/certs/ca-bundle.pem''"
definition default_data_dir :: string where "default_data_dir = ''/data''"
definition default_max_blob_bytes :: int where "default_max_blob_bytes = 256 * 1024 * 1024"
definition default_results_log :: string where "default_results_log = ''/data/results/runs.jsonl''"
definition default_dns_names :: string where "default_dns_names = ''localhost''"
definition results_api_default_limit :: int where "results_api_default_limit = 2000"
definition results_api_max_limit :: int where "results_api_max_limit = 10000"
definition max_blob_name_length :: nat where "max_blob_name_length = 128"
definition max_experiment_id_length :: nat where "max_experiment_id_length = 128"
definition max_json_body_bytes :: nat where "max_json_body_bytes = 32 * 1024"

definition default_next_protos :: "string list" where
  "default_next_protos = [''h2'', ''http/1.1'']"

definition version_tls12 :: u16 where "version_tls12 = 0x0303"
definition version_tls13 :: u16 where "version_tls13 = 0x0304"

record config =
  http_addr :: string
  https_addr :: string
  tls_cert_file :: string
  tls_key_file :: string
  tls_ca_file :: string
  tls_ca_dir :: string
  tls_ca_bundle_file :: string
  tls_client_ca_file :: string
  tls_dns_names :: "string list"
  data_dir :: string
  max_blob_bytes :: int
  results_log :: string
  write_token :: string
  serve_ca :: bool
  tls_min_version :: u16
  tls_cipher_suites :: "u16 list"
  disable_session_tickets :: bool

datatype config_error =
    NotInteger string
  | NotPositive string
  | NotBoolean string
  | BadTlsVersion string
  | UnknownSuite string string

section \<open>Reading one variable\<close>

definition string_from_env :: "environ \<Rightarrow> string \<Rightarrow> string \<Rightarrow> string" where
  "string_from_env env key fallback =
     (let value = trim_space (env key) in if value = [] then fallback else value)"

definition int_from_env :: "environ \<Rightarrow> string \<Rightarrow> int \<Rightarrow> config_error + int" where
  "int_from_env env key fallback =
     (let raw = trim_space (env key)
      in if raw = [] then Inr fallback
         else case parse_int64 raw of None \<Rightarrow> Inl (NotInteger key) | Some n \<Rightarrow> Inr n)"

definition bool_from_env :: "environ \<Rightarrow> string \<Rightarrow> bool \<Rightarrow> config_error + bool" where
  "bool_from_env env key fallback =
     (let raw = trim_space (env key)
      in if raw = [] then Inr fallback
         else if to_lower raw \<in> {''1'', ''true'', ''yes'', ''on''} then Inr True
         else if to_lower raw \<in> {''0'', ''false'', ''no'', ''off''} then Inr False
         else Inl (NotBoolean key))"

text \<open>The loop of \<open>splitCSV\<close>, with the names kept so far and the set of names seen.\<close>

fun split_csv_loop :: "string list \<Rightarrow> string list \<Rightarrow> string set \<Rightarrow> string list" where
  "split_csv_loop [] names seen = names"
| "split_csv_loop (part # parts) names seen =
     (let name = trim_space part
      in if name = [] then split_csv_loop parts names seen
         else if name \<in> seen then split_csv_loop parts names seen
         else split_csv_loop parts (names @ [name]) (insert name seen))"

definition split_csv :: "string \<Rightarrow> string list" where
  "split_csv raw =
     (let names = split_csv_loop (split_on (CHR '','') raw) [] {}
      in if names = [] then [default_dns_names] else names)"

definition tls_min_version_from_env :: "environ \<Rightarrow> config_error + u16" where
  "tls_min_version_from_env env =
     (let raw = trim_space (env ''TLS_MIN_VERSION'')
      in if raw = [] then Inr version_tls12
         else let v = to_lower (remove_blanks raw)
              in if v \<in> {''1.2'', ''tls1.2'', ''tlsv1.2''} then Inr version_tls12
                 else if v \<in> {''1.3'', ''tls1.3'', ''tlsv1.3''} then Inr version_tls13
                 else Inl (BadTlsVersion ''TLS_MIN_VERSION''))"

text \<open>The map of suite names: the secure suites, then the insecure ones over them.\<close>

definition cipher_suite_by_name :: "suite_table \<Rightarrow> suite_table \<Rightarrow> string \<rightharpoonup> u16" where
  "cipher_suite_by_name suites insecure =
     foldl (\<lambda>out (name, sid). out(name \<mapsto> sid)) (foldl (\<lambda>out (name, sid). out(name \<mapsto> sid)) Map.empty suites) insecure"

fun suite_ids :: "(string \<rightharpoonup> u16) \<Rightarrow> string list \<Rightarrow> u16 list \<Rightarrow> config_error + u16 list" where
  "suite_ids known [] ids = Inr ids"
| "suite_ids known (name # names) ids =
     (case known name of
        None \<Rightarrow> Inl (UnknownSuite ''TLS_CIPHER_SUITES'' name)
      | Some sid \<Rightarrow> suite_ids known names (ids @ [sid]))"

definition tls_cipher_suites_from_env ::
  "suite_table \<Rightarrow> suite_table \<Rightarrow> environ \<Rightarrow> config_error + u16 list" where
  "tls_cipher_suites_from_env suites insecure env =
     (let raw = trim_space (env ''TLS_CIPHER_SUITES'')
      in if raw = [] then Inr []
         else suite_ids (cipher_suite_by_name suites insecure) (split_csv raw) [])"

section \<open>FromEnv\<close>

definition from_env :: "suite_table \<Rightarrow> suite_table \<Rightarrow> environ \<Rightarrow> config_error + config" where
  "from_env suites insecure env =
     (case int_from_env env ''MAX_BLOB_BYTES'' default_max_blob_bytes of Inl e \<Rightarrow> Inl e | Inr max_bytes \<Rightarrow>
      if max_bytes \<le> 0 then Inl (NotPositive ''MAX_BLOB_BYTES'') else
      case bool_from_env env ''SERVE_CA'' True of Inl e \<Rightarrow> Inl e | Inr serve \<Rightarrow>
      case bool_from_env env ''TLS_DISABLE_SESSION_TICKETS'' True of Inl e \<Rightarrow> Inl e | Inr tickets \<Rightarrow>
      case tls_min_version_from_env env of Inl e \<Rightarrow> Inl e | Inr min_version \<Rightarrow>
      case tls_cipher_suites_from_env suites insecure env of Inl e \<Rightarrow> Inl e | Inr ciphers \<Rightarrow>
      Inr \<lparr>http_addr = string_from_env env ''HTTP_ADDR'' default_http_addr,
           https_addr = string_from_env env ''HTTPS_ADDR'' default_https_addr,
           tls_cert_file = string_from_env env ''TLS_CERT_FILE'' default_tls_cert_file,
           tls_key_file = string_from_env env ''TLS_KEY_FILE'' default_tls_key_file,
           tls_ca_file = string_from_env env ''TLS_CA_FILE'' default_tls_ca_file,
           tls_ca_dir = string_from_env env ''TLS_CA_DIR'' default_tls_ca_dir,
           tls_ca_bundle_file = string_from_env env ''TLS_CA_BUNDLE_FILE'' default_tls_ca_bundle,
           tls_client_ca_file = trim_space (env ''TLS_CLIENT_CA_FILE''),
           tls_dns_names = split_csv (string_from_env env ''TLS_DNS_NAMES'' default_dns_names),
           data_dir = string_from_env env ''DATA_DIR'' default_data_dir,
           max_blob_bytes = max_bytes,
           results_log = string_from_env env ''RESULTS_LOG'' default_results_log,
           write_token = trim_space (env ''BENCH_WRITE_TOKEN''),
           serve_ca = serve,
           tls_min_version = min_version,
           tls_cipher_suites = ciphers,
           disable_session_tickets = tickets\<rparr>)"

section \<open>Lemmas\<close>

text \<open>The names of a comma-separated list: trimmed, blanks dropped.\<close>

definition csv_names :: "string \<Rightarrow> string list" where
  "csv_names raw = filter (\<lambda>n. n \<noteq> []) (map trim_space (split_on (CHR '','') raw))"

definition first_occurrences :: "'a list \<Rightarrow> 'a list" where
  "first_occurrences xs = rev (remdups (rev xs))"

lemma remdups_snoc: "remdups (xs @ [x]) = remdups (filter (\<lambda>y. y \<noteq> x) xs) @ [x]"
  by (induction xs) auto

lemma first_occurrences_Cons:
  "first_occurrences (x # xs) = x # first_occurrences (filter (\<lambda>y. y \<noteq> x) xs)"
  by (simp add: first_occurrences_def remdups_snoc rev_filter)

lemma first_occurrences_Nil [simp]: "first_occurrences [] = []"
  by (simp add: first_occurrences_def)

lemma first_occurrences_set [simp]: "set (first_occurrences xs) = set xs"
  and first_occurrences_distinct [simp]: "distinct (first_occurrences xs)"
  and first_occurrences_empty [simp]: "first_occurrences xs = [] \<longleftrightarrow> xs = []"
  by (simp_all add: first_occurrences_def)

lemma split_csv_loop_eq:
  "split_csv_loop parts names (set names) =
     names @ first_occurrences (filter (\<lambda>n. n \<notin> set names) (filter (\<lambda>n. n \<noteq> []) (map trim_space parts)))"
proof (induction parts arbitrary: names)
  case (Cons part parts)
  let ?n = "trim_space part"
  show ?case
  proof (cases "?n = [] \<or> ?n \<in> set names")
    case False
    have "insert ?n (set names) = set (names @ [?n])" by simp
    then have "split_csv_loop (part # parts) names (set names) = split_csv_loop parts (names @ [?n]) (set (names @ [?n]))"
      using False by (simp add: Let_def)
    also have "\<dots> = (names @ [?n]) @ first_occurrences
        (filter (\<lambda>n. n \<notin> set (names @ [?n])) (filter (\<lambda>n. n \<noteq> []) (map trim_space parts)))"
      by (rule Cons.IH)
    finally show ?thesis
      using False by (simp add: first_occurrences_Cons conj_commute conj_left_commute)
  qed (use Cons.IH in \<open>auto simp: Let_def\<close>)
qed simp

lemma split_csv_eq:
  "split_csv raw = (if csv_names raw = [] then [default_dns_names] else first_occurrences (csv_names raw))"
  using split_csv_loop_eq [of "split_on (CHR '','') raw" "[]"]
  by (simp add: split_csv_def csv_names_def Let_def)

lemma split_csv_props: "split_csv raw \<noteq> []" "distinct (split_csv raw)" "[] \<notin> set (split_csv raw)"
  by (auto simp: split_csv_eq csv_names_def default_dns_names_def)

lemma suite_ids_eq:
  "suite_ids known names ids =
     (case List.find (\<lambda>n. known n = None) names of
        Some n \<Rightarrow> Inl (UnknownSuite ''TLS_CIPHER_SUITES'' n)
      | None \<Rightarrow> Inr (ids @ map (\<lambda>n. the (known n)) names))"
  by (induction names arbitrary: ids) (auto split: option.splits)

lemma parse_int64_range: "parse_int64 s = Some n \<Longrightarrow> int64 n"
  by (auto simp: parse_int64_def Let_def split: option.splits if_splits)

lemma string_from_env_nonempty: "fallback \<noteq> [] \<Longrightarrow> string_from_env env key fallback \<noteq> []"
  by (simp add: string_from_env_def Let_def)

lemma int_from_env_range: "int_from_env env key fb = Inr n \<Longrightarrow> int64 fb \<Longrightarrow> int64 n"
  by (auto simp: int_from_env_def Let_def parse_int64_range split: if_splits option.splits)

lemma tls_min_version_cases:
  "tls_min_version_from_env env = Inr v \<Longrightarrow> v = version_tls12 \<or> v = version_tls13"
  by (auto simp: tls_min_version_from_env_def Let_def split: if_splits)

lemma to_lower_Nil_iff [simp]: "to_lower s = [] \<longleftrightarrow> s = []"
  by (simp add: to_lower_def)

text \<open>A trimmed string is not made of blanks only.\<close>

lemma remove_blanks_trimmed:
  assumes "remove_blanks (trim_space s) = []"
  shows "trim_space s = []"
proof (cases "trim_space s")
  case (Cons c cs)
  with assms have "c = CHR 0x20" by (auto simp: remove_blanks_def split: if_splits)
  moreover have "space_width (trim_space s) = 0" by (rule space_width_trim_space)
  ultimately show ?thesis using Cons by (simp add: space_width_def space_width_in_def ascii_spaces_def)
qed simp

lemma tls_min_version_accepts:
  "(\<exists>v. tls_min_version_from_env env = Inr v) \<longleftrightarrow>
     to_lower (remove_blanks (trim_space (env ''TLS_MIN_VERSION'')))
       \<in> {[], ''1.2'', ''tls1.2'', ''tlsv1.2'', ''1.3'', ''tls1.3'', ''tlsv1.3''}"
proof (cases "trim_space (env ''TLS_MIN_VERSION'') = []")
  case True
  then show ?thesis by (simp add: tls_min_version_from_env_def remove_blanks_def)
next
  case False
  then have "remove_blanks (trim_space (env ''TLS_MIN_VERSION'')) \<noteq> []"
    using remove_blanks_trimmed by blast
  with False show ?thesis by (auto simp: tls_min_version_from_env_def Let_def)
qed

lemma suites_from_env_known:
  assumes "tls_cipher_suites_from_env suites insecure env = Inr ids" and "i \<in> set ids"
  shows "i \<in> ran (cipher_suite_by_name suites insecure)"
proof (cases "trim_space (env ''TLS_CIPHER_SUITES'') = []")
  case False
  let ?known = "cipher_suite_by_name suites insecure"
  let ?names = "split_csv (trim_space (env ''TLS_CIPHER_SUITES''))"
  from False assms(1) have none: "List.find (\<lambda>n. ?known n = None) ?names = None"
    and ids: "ids = map (\<lambda>n. the (?known n)) ?names"
    by (auto simp: tls_cipher_suites_from_env_def suite_ids_eq Let_def split: option.splits)
  from assms(2) ids obtain n where "n \<in> set ?names" "i = the (?known n)" by auto
  with none show ?thesis by (auto simp: find_None_iff ran_def)
qed (use assms in \<open>simp add: tls_cipher_suites_from_env_def\<close>)

text \<open>The default names are not empty.\<close>

lemmas default_names = default_http_addr_def default_https_addr_def default_tls_cert_file_def
  default_tls_key_file_def default_tls_ca_file_def default_tls_ca_dir_def default_tls_ca_bundle_def
  default_data_dir_def default_results_log_def

text \<open>What the rest of the program relies on.\<close>

definition config_ok :: "suite_table \<Rightarrow> suite_table \<Rightarrow> config \<Rightarrow> bool" where
  "config_ok suites insecure cfg \<longleftrightarrow>
     0 < max_blob_bytes cfg \<and> max_blob_bytes cfg \<le> max_int64
     \<and> [] \<notin> {http_addr cfg, https_addr cfg, tls_cert_file cfg, tls_key_file cfg, tls_ca_file cfg,
             tls_ca_dir cfg, tls_ca_bundle_file cfg, data_dir cfg, results_log cfg}
     \<and> tls_dns_names cfg \<noteq> [] \<and> distinct (tls_dns_names cfg) \<and> [] \<notin> set (tls_dns_names cfg)
     \<and> tls_min_version cfg \<in> {version_tls12, version_tls13}
     \<and> set (tls_cipher_suites cfg) \<subseteq> ran (cipher_suite_by_name suites insecure)
     \<and> trim_space (write_token cfg) = write_token cfg"

definition default_config :: config where
  "default_config =
     \<lparr>http_addr = default_http_addr, https_addr = default_https_addr,
      tls_cert_file = default_tls_cert_file, tls_key_file = default_tls_key_file,
      tls_ca_file = default_tls_ca_file, tls_ca_dir = default_tls_ca_dir,
      tls_ca_bundle_file = default_tls_ca_bundle, tls_client_ca_file = [],
      tls_dns_names = [default_dns_names], data_dir = default_data_dir,
      max_blob_bytes = default_max_blob_bytes, results_log = default_results_log,
      write_token = [], serve_ca = True, tls_min_version = version_tls12,
      tls_cipher_suites = [], disable_session_tickets = True\<rparr>"

lemma split_csv_default: "split_csv default_dns_names = [default_dns_names]"
  by code_simp

text \<open>Every accepted configuration satisfies the invariant.\<close>

lemma from_env_ok:
  assumes "from_env suites insecure env = Inr cfg"
  shows "config_ok suites insecure cfg"
proof -
  from assms obtain n where n: "int_from_env env ''MAX_BLOB_BYTES'' default_max_blob_bytes = Inr n" "0 < n"
    by (auto simp: from_env_def not_le split: sum.splits if_splits)
  have "int64 n" by (rule int_from_env_range [OF n(1)]) (simp add: default_max_blob_bytes_def int64_def)
  then have "n \<le> max_int64" by (simp add: int64_def)
  with assms n show ?thesis
    by (auto simp: from_env_def config_ok_def split_csv_props default_names
        string_from_env_nonempty [symmetric] dest: tls_min_version_cases suites_from_env_known
        split: sum.splits if_splits)
qed

text \<open>In an environment where every variable is unset or blank, the configuration is the default.\<close>

lemma from_env_defaults:
  assumes "\<And>key. trim_space (env key) = []"
  shows "from_env suites insecure env = Inr default_config"
  using assms by (simp add: from_env_def int_from_env_def bool_from_env_def tls_min_version_from_env_def
      tls_cipher_suites_from_env_def string_from_env_def split_csv_default default_config_def
      default_max_blob_bytes_def)

lemma trim_blank: "trim_space '' '' = []"
  by code_simp

section \<open>Properties\<close>

text \<open>
  C22: Whatever the environment, a configuration that \<open>FromEnv\<close> accepts has a positive
  64-bit size limit, non-empty addresses and paths, a non-empty duplicate-free list of
  non-empty DNS names, TLS 1.2 or 1.3 as its minimum version, only cipher suites that
  \<open>crypto/tls\<close> knows, and a trimmed write token.
\<close>

theorem from_env_invariant:
  assumes "from_env suites insecure env = Inr cfg"
  shows "config_ok suites insecure cfg"
  using assms by (rule from_env_ok)

theorem from_env_invariant_witness:
  "config_ok [] [] default_config"
proof -
  have "from_env [] [] (\<lambda>_. []) = Inr default_config" by code_simp
  then show ?thesis by (rule from_env_invariant)
qed

text \<open>
  C23: \<open>FromEnv\<close> accepts exactly the environments whose size limit is blank or a positive
  64-bit integer, whose two switches are blank or one of the eight words, whose minimum
  version is blank or one of the six spellings, and whose cipher suites are all known.
\<close>

theorem from_env_accepts_iff:
  "(\<exists>cfg. from_env suites insecure env = Inr cfg) \<longleftrightarrow>
     (\<exists>n > 0. int_from_env env ''MAX_BLOB_BYTES'' default_max_blob_bytes = Inr n)
     \<and> (\<forall>key \<in> {''SERVE_CA'', ''TLS_DISABLE_SESSION_TICKETS''}.
          to_lower (trim_space (env key)) \<in> {[], ''1'', ''true'', ''yes'', ''on'', ''0'', ''false'', ''no'', ''off''})
     \<and> to_lower (remove_blanks (trim_space (env ''TLS_MIN_VERSION'')))
          \<in> {[], ''1.2'', ''tls1.2'', ''tlsv1.2'', ''1.3'', ''tls1.3'', ''tlsv1.3''}
     \<and> (trim_space (env ''TLS_CIPHER_SUITES'') = []
          \<or> (\<forall>name \<in> set (split_csv (trim_space (env ''TLS_CIPHER_SUITES''))).
               cipher_suite_by_name suites insecure name \<noteq> None))"
  (is "_ \<longleftrightarrow> ?max \<and> ?bools \<and> ?version \<and> ?suites")
proof -
  have bool: "(\<exists>b. bool_from_env env key fb = Inr b) \<longleftrightarrow>
      to_lower (trim_space (env key)) \<in> {[], ''1'', ''true'', ''yes'', ''on'', ''0'', ''false'', ''no'', ''off''}"
    for key fb by (auto simp: bool_from_env_def Let_def)
  have ver: "(\<exists>v. tls_min_version_from_env env = Inr v) \<longleftrightarrow> ?version"
    by (rule tls_min_version_accepts)
  have suites: "(\<exists>ids. tls_cipher_suites_from_env suites insecure env = Inr ids) \<longleftrightarrow> ?suites"
    by (auto simp: tls_cipher_suites_from_env_def suite_ids_eq find_None_iff find_Some_iff Let_def
        split: option.splits)
  have "(\<exists>cfg. from_env suites insecure env = Inr cfg) \<longleftrightarrow> ?max
      \<and> (\<exists>b. bool_from_env env ''SERVE_CA'' True = Inr b)
      \<and> (\<exists>b. bool_from_env env ''TLS_DISABLE_SESSION_TICKETS'' True = Inr b)
      \<and> (\<exists>v. tls_min_version_from_env env = Inr v)
      \<and> (\<exists>ids. tls_cipher_suites_from_env suites insecure env = Inr ids)"
    by (auto simp: from_env_def not_le split: sum.splits if_splits)
  then show ?thesis unfolding bool ver suites by auto
qed

theorem from_env_accepts_iff_witness:
  "\<not> (\<exists>cfg. from_env [] [] (\<lambda>k. if k = ''TLS_MIN_VERSION'' then ''1.1'' else []) = Inr cfg)"
proof -
  have "to_lower (remove_blanks (trim_space ''1.1'')) \<notin>
      {[], ''1.2'', ''tls1.2'', ''tlsv1.2'', ''1.3'', ''tls1.3'', ''tlsv1.3''}" by code_simp
  then show ?thesis
    using from_env_accepts_iff [of "[]" "[]" "\<lambda>k. if k = ''TLS_MIN_VERSION'' then ''1.1'' else []"]
    by simp
qed

text \<open>
  C39: \<open>splitCSV\<close> keeps the first occurrence of every trimmed, non-empty item, in order;
  only when nothing is left does it return the default DNS name.
\<close>

theorem split_csv_first_occurrences:
  "split_csv raw =
     (let names = filter (\<lambda>n. n \<noteq> []) (map trim_space (split_on (CHR '','') raw))
      in if names = [] then [default_dns_names] else rev (remdups (rev names)))"
  by (simp add: split_csv_eq csv_names_def first_occurrences_def Let_def)

text \<open>
  The fallback of \<open>splitCSV\<close> also applies where it is used for cipher suites: a value
  of \<open>TLS_CIPHER_SUITES\<close> that holds only separators is rejected as the unknown suite
  \<open>localhost\<close>, although the variable names no suite.
\<close>

theorem cipher_suites_separators_only:
  assumes "trim_space (env ''TLS_CIPHER_SUITES'') \<noteq> []"
    and "csv_names (trim_space (env ''TLS_CIPHER_SUITES'')) = []"
    and "cipher_suite_by_name suites insecure ''localhost'' = None"
  shows "tls_cipher_suites_from_env suites insecure env =
    Inl (UnknownSuite ''TLS_CIPHER_SUITES'' ''localhost'')"
  using assms by (simp add: tls_cipher_suites_from_env_def split_csv_eq default_dns_names_def)

theorem cipher_suites_separators_only_witness:
  "tls_cipher_suites_from_env [(''TLS_AES_128_GCM_SHA256'', 0x1301)] [] (\<lambda>_. '' , '') =
    Inl (UnknownSuite ''TLS_CIPHER_SUITES'' ''localhost'')"
proof (rule cipher_suites_separators_only)
  show "trim_space '' , '' \<noteq> []" by code_simp
  show "csv_names (trim_space '' , '') = []" by code_simp
qed (simp add: cipher_suite_by_name_def)

end
