(* ===== verification/Float64.thy ===== *)
theory Float64
  imports Prelude Complex_Main "HOL-Library.Log_Nat"
begin

text \<open>
  Go's \<open>float64\<close>: IEEE 754 binary64 with rounding to nearest, ties to even, as the
  language specifies it.  A value is a finite number (a rational), an infinity or NaN; every
  operation computes exactly on rationals and then applies \<open>round64\<close>.  Negative zero is
  identified with zero: the program compares, rounds, divides by positive constants and
  stores, and no branch of it distinguishes the two.

  The locale \<open>rounding\<close> states what the client proofs need of a rounding function (a
  relative error of at most \<open>2 ^ - 53\<close> on normal numbers) and proves there that values on
  a decimal grid survive the program's conversions; \<open>round64\<close> is its interpretation.
\<close>

section \<open>Values, order and comparisons\<close>

datatype f64 = NaN | NInf | Fin rat | PInf

fun f64_rank :: "f64 \<Rightarrow> nat" where
  "f64_rank NaN = 0" | "f64_rank NInf = 1" | "f64_rank (Fin _) = 2" | "f64_rank PInf = 3"

fun f64_leq :: "f64 \<Rightarrow> f64 \<Rightarrow> bool" where
  "f64_leq (Fin a) (Fin b) = (a \<le> b)"
| "f64_leq x y = (f64_rank x \<le> f64_rank y)"

text \<open>
  The order of \<open>sort.Float64s\<close>, a linear order in which NaN comes first.  It is the
  library's \<open>\<le>\<close> on \<^typ>\<open>f64\<close>; the language's comparison operators are \<open>flt\<close>
  and \<open>fle\<close> below, which are false on NaN.
\<close>

instantiation f64 :: linorder
begin

definition less_eq_f64 :: "f64 \<Rightarrow> f64 \<Rightarrow> bool" where
  "less_eq_f64 x y = f64_leq x y"

definition less_f64 :: "f64 \<Rightarrow> f64 \<Rightarrow> bool" where
  "less_f64 x y = (f64_leq x y \<and> x \<noteq> y)"

instance
proof
  fix x y z :: f64
  show "x < y \<longleftrightarrow> x \<le> y \<and> \<not> y \<le> x"
    by (cases x; cases y) (auto simp: less_eq_f64_def less_f64_def)
  show "x \<le> x" by (cases x) (auto simp: less_eq_f64_def)
  show "x \<le> y \<Longrightarrow> y \<le> z \<Longrightarrow> x \<le> z"
    by (cases x; cases y; cases z) (auto simp: less_eq_f64_def)
  show "x \<le> y \<Longrightarrow> y \<le> x \<Longrightarrow> x = y"
    by (cases x; cases y) (auto simp: less_eq_f64_def)
  show "x \<le> y \<or> y \<le> x" by (cases x; cases y) (auto simp: less_eq_f64_def)
qed

end

lemma Fin_le [simp]: "Fin a \<le> Fin b \<longleftrightarrow> a \<le> b"
  by (simp add: less_eq_f64_def)

fun flt :: "f64 \<Rightarrow> f64 \<Rightarrow> bool" where
  "flt NaN y = False"
| "flt x NaN = False"
| "flt (Fin a) (Fin b) = (a < b)"
| "flt x y = (f64_rank x < f64_rank y)"

definition fle :: "f64 \<Rightarrow> f64 \<Rightarrow> bool" where
  "fle x y \<longleftrightarrow> x \<noteq> NaN \<and> y \<noteq> NaN \<and> (flt x y \<or> x = y)"

fun is_finite :: "f64 \<Rightarrow> bool" where
  "is_finite (Fin _) = True"
| "is_finite _ = False"

lemma fle_Fin [simp]: "fle (Fin a) (Fin b) \<longleftrightarrow> a \<le> b"
  by (auto simp: fle_def)

lemma fle_NaN [simp]: "\<not> fle NaN y" "\<not> fle x NaN"
  by (auto simp: fle_def)

lemma fle_inf [simp]: "fle NInf (Fin b)" "fle (Fin b) PInf" "fle NInf PInf" "\<not> fle PInf (Fin b)"
  "\<not> fle (Fin b) NInf"
  by (auto simp: fle_def)

section \<open>Rounding\<close>

definition pow2 :: "int \<Rightarrow> rat" where
  "pow2 e = 2 powi e"

text \<open>Evaluate powers of two on integers, not by multiplying fractions.\<close>

lemma pow2_code [code]: "pow2 e = (if 0 \<le> e then of_int (2 ^ nat e) else Fract 1 (2 ^ nat (- e)))"
  by (auto simp: pow2_def power_int_def Fract_of_int_quotient inverse_eq_divide power_one_over)

text \<open>\<open>ilog2 q\<close> is the exponent of the binade of a positive \<open>q\<close>.\<close>

definition ilog2 :: "rat \<Rightarrow> int" where
  "ilog2 q =
     (let (n, d) = quotient_of q; k = bitlen n - bitlen d
      in if pow2 k \<le> q then k else k - 1)"

text \<open>Round to an integer: to nearest, ties to even.\<close>

definition rne :: "rat \<Rightarrow> int" where
  "rne q =
     (let f = \<lfloor>q\<rfloor>; d = q - of_int f
      in if d < 1/2 then f else if d > 1/2 then f + 1 else if even f then f else f + 1)"

text \<open>
  The exponent of the last place: 53 significant bits, and no finer than \<open>2 ^ - 1074\<close>
  (gradual underflow).
\<close>

definition ulp_exp :: "rat \<Rightarrow> int" where
  "ulp_exp a = max (ilog2 a - 52) (- 1074)"

definition round_abs :: "rat \<Rightarrow> rat" where
  "round_abs a = of_int (rne (a / pow2 (ulp_exp a))) * pow2 (ulp_exp a)"

definition round64 :: "rat \<Rightarrow> f64" where
  "round64 q =
     (if q = 0 then Fin 0
      else let r = round_abs \<bar>q\<bar>
           in if pow2 1024 \<le> r then (if q < 0 then NInf else PInf)
              else Fin (if q < 0 then - r else r))"

section \<open>Arithmetic\<close>

fun fneg :: "f64 \<Rightarrow> f64" where
  "fneg (Fin a) = Fin (- a)" | "fneg PInf = NInf" | "fneg NInf = PInf" | "fneg NaN = NaN"

fun fadd :: "f64 \<Rightarrow> f64 \<Rightarrow> f64" where
  "fadd (Fin a) (Fin b) = round64 (a + b)"
| "fadd NaN y = NaN"
| "fadd x NaN = NaN"
| "fadd PInf NInf = NaN"
| "fadd NInf PInf = NaN"
| "fadd PInf y = PInf"
| "fadd NInf y = NInf"
| "fadd (Fin a) y = y"

definition fsub :: "f64 \<Rightarrow> f64 \<Rightarrow> f64" where
  "fsub x y = fadd x (fneg y)"

definition inf_of_sign :: "rat \<Rightarrow> f64" where
  "inf_of_sign s = (if s < 0 then NInf else if s = 0 then NaN else PInf)"

fun fsign :: "f64 \<Rightarrow> rat" where
  "fsign (Fin a) = sgn a" | "fsign PInf = 1" | "fsign NInf = - 1" | "fsign NaN = 0"

fun fmul :: "f64 \<Rightarrow> f64 \<Rightarrow> f64" where
  "fmul (Fin a) (Fin b) = round64 (a * b)"
| "fmul NaN y = NaN"
| "fmul x NaN = NaN"
| "fmul x y = inf_of_sign (fsign x * fsign y)"

fun fdiv :: "f64 \<Rightarrow> f64 \<Rightarrow> f64" where
  "fdiv NaN y = NaN"
| "fdiv x NaN = NaN"
| "fdiv (Fin a) (Fin b) = (if b = 0 then inf_of_sign (sgn a) else round64 (a / b))"
| "fdiv (Fin a) y = Fin 0"
| "fdiv x (Fin b) = (if b < 0 then fneg x else x)"
| "fdiv x y = NaN"

text \<open>\<open>math.Round\<close>: to the nearest integer, halves away from zero.\<close>

definition round_away :: "rat \<Rightarrow> int" where
  "round_away q = (if q < 0 then - \<lfloor>1/2 - q\<rfloor> else \<lfloor>q + 1/2\<rfloor>)"

fun math_round :: "f64 \<Rightarrow> f64" where
  "math_round (Fin q) = Fin (of_int (round_away q))"
| "math_round x = x"

text \<open>Conversions \<open>float64(n)\<close> and \<open>int(x)\<close> (towards zero, for finite \<open>x\<close>).\<close>

definition of_int64 :: "int \<Rightarrow> f64" where
  "of_int64 n = round64 (of_int n)"

fun trunc64 :: "f64 \<Rightarrow> int" where
  "trunc64 (Fin q) = (if q < 0 then - \<lfloor>- q\<rfloor> else \<lfloor>q\<rfloor>)"
| "trunc64 _ = - (2 ^ 63)"

text \<open>A rational that binary64 represents.\<close>

definition is_f64 :: "rat \<Rightarrow> bool" where
  "is_f64 q \<longleftrightarrow> round64 q = Fin q"

section \<open>Powers of two and binades\<close>

lemma pow2_pos [simp]: "0 < pow2 e"
  by (simp add: pow2_def)

lemma pow2_nonzero [simp]: "pow2 e \<noteq> 0"
  by (simp add: pow2_def)

lemma pow2_add: "pow2 (a + b) = pow2 a * pow2 b"
  by (simp add: pow2_def power_int_add)

lemma pow2_diff: "pow2 (a - b) = pow2 a / pow2 b"
  by (simp add: pow2_def power_int_diff)

lemma pow2_nat: "0 \<le> e \<Longrightarrow> pow2 e = 2 ^ nat e"
  by (simp add: pow2_def power_int_def)

lemma pow2_mono: "a \<le> b \<Longrightarrow> pow2 a \<le> pow2 b"
  by (simp add: pow2_def power_int_increasing)

lemma pow2_less_iff: "pow2 a < pow2 b \<longleftrightarrow> a < b"
proof
  assume "pow2 a < pow2 b"
  then show "a < b" using pow2_mono [of b a] by (meson not_less)
next
  assume "a < b"
  then show "pow2 a < pow2 b" by (simp add: pow2_def power_int_strict_increasing)
qed

lemma bitlen_pow2:
  assumes "0 < n"
  shows "pow2 (bitlen n - 1) \<le> of_int n" and "of_int n < pow2 (bitlen n)"
proof -
  from bitlen_bounds [OF assms]
  have b: "2 ^ nat (bitlen n - 1) \<le> n" "n < 2 ^ nat (bitlen n)" by auto
  have "0 < bitlen n" using assms bitlen_eq_zero_iff [of n] bitlen_nonneg [of n] by linarith
  then have p: "pow2 (bitlen n - 1) = of_int (2 ^ nat (bitlen n - 1))"
    "pow2 (bitlen n) = of_int (2 ^ nat (bitlen n))" by (simp_all add: pow2_nat)
  show "pow2 (bitlen n - 1) \<le> of_int n" unfolding p of_int_le_iff by (rule b)
  show "of_int n < pow2 (bitlen n)" unfolding p of_int_less_iff by (rule b)
qed

lemma ilog2_bounds:
  assumes "0 < q"
  shows "pow2 (ilog2 q) \<le> q" and "q < pow2 (ilog2 q + 1)"
proof -
  obtain n d where nd: "quotient_of q = (n, d)" by fastforce
  then have d: "0 < d" and q: "q = of_int n / of_int d"
    by (auto dest: quotient_of_denom_pos quotient_of_div)
  with assms have n: "0 < n" by (simp add: zero_less_divide_iff)
  let ?k = "bitlen n - bitlen d"
  have "q < pow2 (bitlen n) / pow2 (bitlen d - 1)"
    unfolding q using bitlen_pow2 [OF n] bitlen_pow2 [OF d] d n
    by (intro frac_less) (use n d in auto)
  then have up: "q < pow2 (?k + 1)" by (simp add: pow2_diff [symmetric] algebra_simps)
  have "pow2 (bitlen n - 1) / pow2 (bitlen d) \<le> q"
    unfolding q using bitlen_pow2 [OF n] bitlen_pow2 [OF d] d
    by (intro frac_le) (use n d in auto)
  then have lo: "pow2 (?k - 1) \<le> q" by (simp add: pow2_diff [symmetric] algebra_simps)
  show "pow2 (ilog2 q) \<le> q" "q < pow2 (ilog2 q + 1)"
    using up lo by (auto simp: ilog2_def nd Let_def not_le)
qed

lemma ilog2_ge: "0 < q \<Longrightarrow> pow2 e \<le> q \<Longrightarrow> e \<le> ilog2 q"
  using ilog2_bounds(2) [of q] pow2_less_iff [of e "ilog2 q + 1"] by linarith

section \<open>Rounding to an integer\<close>

lemma rne_error: "\<bar>of_int (rne q) - q\<bar> \<le> 1 / 2"
  using floor_correct [of q] by (auto simp: rne_def Let_def abs_le_iff)

lemma rne_of_int [simp]: "rne (of_int n) = n"
  by (simp add: rne_def)

lemma rne_nonneg: "0 \<le> q \<Longrightarrow> 0 \<le> rne q"
  by (auto simp: rne_def Let_def)

lemma rne_le: "q \<le> of_int n \<Longrightarrow> rne q \<le> n"
  by (auto simp: rne_def Let_def) linarith+

lemma round_away_near:
  assumes "\<bar>q - of_int n\<bar> < 1 / 2"
  shows "round_away q = n"
proof -
  from assms have lo: "of_int n - 1 / 2 < q" and hi: "q < of_int n + 1 / 2"
    unfolding abs_less_iff by linarith+
  have "\<lfloor>q + 1 / 2\<rfloor> = n" using lo hi by (intro floor_unique) linarith+
  moreover have "\<lfloor>1 / 2 - q\<rfloor> = - n" using lo hi by (intro floor_unique) (simp; linarith)+
  ultimately show ?thesis by (simp add: round_away_def)
qed

lemma round_away_nearI: "of_int n - 1 / 2 < q \<Longrightarrow> q < of_int n + 1 / 2 \<Longrightarrow> round_away q = n"
  by (rule round_away_near) (simp only: abs_less_iff, linarith)

lemma round_away_of_int [simp]: "round_away (of_int n) = n"
  by (rule round_away_near) simp

lemma round_away_zero [simp]: "round_away 0 = 0"
  using round_away_of_int [of 0] by simp

lemma round_away_nonneg: "0 \<le> q \<Longrightarrow> 0 \<le> round_away q"
  by (simp add: round_away_def)

section \<open>Properties of round64\<close>

lemma round_abs_error: "\<bar>round_abs a - a\<bar> \<le> pow2 (ulp_exp a) / 2"
proof -
  let ?u = "pow2 (ulp_exp a)"
  have "round_abs a - a = (of_int (rne (a / ?u)) - a / ?u) * ?u"
    by (simp add: round_abs_def left_diff_distrib)
  then have "\<bar>round_abs a - a\<bar> = \<bar>of_int (rne (a / ?u)) - a / ?u\<bar> * ?u"
    by (simp only: abs_mult abs_of_pos [OF pow2_pos])
  also have "\<dots> \<le> 1 / 2 * ?u"
    by (intro mult_right_mono rne_error) (simp add: less_imp_le)
  finally show ?thesis by simp
qed

lemma round_abs_nonneg: "0 \<le> a \<Longrightarrow> 0 \<le> round_abs a"
  by (simp add: round_abs_def rne_nonneg less_imp_le)

lemma round_abs_rel:
  assumes "pow2 (- 1022) \<le> a"
  shows "\<bar>round_abs a - a\<bar> \<le> a / 2 ^ 53"
proof -
  have pos: "0 < a" using assms pow2_pos [of "- 1022"] by linarith
  have "- 1022 \<le> ilog2 a" by (rule ilog2_ge [OF pos assms])
  then have "ulp_exp a = ilog2 a - 52" by (simp add: ulp_exp_def)
  then have "pow2 (ulp_exp a) = pow2 (ilog2 a) / 2 ^ 52"
    by (simp add: pow2_diff pow2_nat [of 52])
  also have "\<dots> \<le> a / 2 ^ 52" using ilog2_bounds(1) [OF pos] by simp
  finally show ?thesis using round_abs_error [of a] by simp
qed

lemma round64_zero [simp]: "round64 0 = Fin 0"
  by (simp add: round64_def)

lemma round64_close:
  assumes "pow2 (- 1022) \<le> \<bar>q\<bar>" and "\<bar>q\<bar> \<le> 2 ^ 1000"
  shows "\<exists>r. round64 q = Fin r \<and> \<bar>r - q\<bar> \<le> \<bar>q\<bar> / 2 ^ 53"
proof -
  let ?r = "round_abs \<bar>q\<bar>"
  have err: "\<bar>?r - \<bar>q\<bar>\<bar> \<le> \<bar>q\<bar> / 2 ^ 53" by (rule round_abs_rel) (rule assms)
  have "?r - \<bar>q\<bar> \<le> \<bar>q\<bar> / 2 ^ 53" by (rule abs_le_D1 [OF err])
  also have "\<dots> \<le> \<bar>q\<bar>" by simp
  finally have "?r \<le> 2 * \<bar>q\<bar>" by simp
  also have "\<dots> \<le> 2 ^ 1001" using assms(2) by simp
  also have "\<dots> < pow2 1024" by (simp add: pow2_nat)
  finally have fin: "\<not> pow2 1024 \<le> ?r" by simp
  have nz: "q \<noteq> 0" using assms(1) pow2_pos [of "- 1022"] by (auto simp del: pow2_pos)
  show ?thesis using err fin nz by (auto simp: round64_def Let_def abs_if split: if_splits)
qed

lemma round64_nonneg: "0 \<le> q \<Longrightarrow> round64 q = Fin r \<Longrightarrow> 0 \<le> r"
  by (auto simp: round64_def Let_def round_abs_nonneg split: if_splits)

lemma round64_minus: "round64 (- q) = fneg (round64 q)"
  by (simp add: round64_def Let_def)

lemma round64_not_NaN [simp]: "round64 q \<noteq> NaN"
  by (simp add: round64_def Let_def)

lemma round64_sign: "0 \<le> q \<Longrightarrow> fle (Fin 0) (round64 q)"
  by (cases "round64 q") (auto simp: round64_nonneg, auto simp: round64_def Let_def split: if_splits)

subsection \<open>Representable numbers are fixed points\<close>

lemma round_abs_multiple: "a = of_int k * pow2 (ulp_exp a) \<Longrightarrow> round_abs a = a"
  by (metis nonzero_mult_div_cancel_right pow2_nonzero rne_of_int round_abs_def)

lemma round_abs_exact:
  assumes a: "a = of_int m * pow2 e" and m: "0 < m" "m \<le> 2 ^ 53" and e: "- 1074 \<le> e"
  shows "round_abs a = a"
proof (cases "ulp_exp a \<le> e")
  case True
  let ?n = "nat (e - ulp_exp a)"
  from True have "pow2 e = of_int (2 ^ ?n) * pow2 (ulp_exp a)"
    using pow2_add [of "e - ulp_exp a" "ulp_exp a"] by (simp add: pow2_nat)
  with a have "a = of_int (m * 2 ^ ?n) * pow2 (ulp_exp a)" by simp
  then show ?thesis by (rule round_abs_multiple)
next
  case False
  with e have u: "ulp_exp a = ilog2 a - 52" by (auto simp: ulp_exp_def)
  have pos: "0 < a" using a m by simp
  have up: "a \<le> pow2 (e + 53)"
    using a m by (simp add: pow2_add pow2_nat [of 53] mult.commute)
  have "\<not> pow2 (e + 53) < pow2 (ilog2 a)" using ilog2_bounds(1) [OF pos] up by linarith
  with False u have il: "ilog2 a = e + 53" by (simp add: pow2_less_iff)
  with ilog2_bounds(1) [OF pos] up have "a = pow2 (e + 53)" by simp
  also have "e + 53 = 52 + ulp_exp a" using u il by simp
  finally have "a = of_int (2 ^ 52) * pow2 (ulp_exp a)" by (simp add: pow2_add pow2_nat [of 52])
  then show ?thesis by (rule round_abs_multiple)
qed

lemma is_f64I:
  assumes "q = of_int m * pow2 e" and "\<bar>m\<bar> \<le> 2 ^ 53" and "- 1074 \<le> e" and "\<bar>q\<bar> < pow2 1024"
  shows "is_f64 q"
proof (cases "q = 0")
  case False
  with assms(1) have m: "m \<noteq> 0" by auto
  have "\<bar>q\<bar> = of_int \<bar>m\<bar> * pow2 e" using assms(1) by (simp add: abs_mult abs_of_pos)
  then have "round_abs \<bar>q\<bar> = \<bar>q\<bar>" using m assms by (intro round_abs_exact) auto
  with False assms(4) show ?thesis by (simp add: is_f64_def round64_def Let_def)
qed (simp add: is_f64_def)

lemma is_f64_of_int: "\<bar>n\<bar> \<le> 2 ^ 53 \<Longrightarrow> is_f64 (of_int n)"
proof (rule is_f64I [where m = n and e = 0])
  assume "\<bar>n\<bar> \<le> 2 ^ 53"
  then have "\<bar>rat_of_int n\<bar> \<le> of_int (2 ^ 53)" by (simp only: of_int_abs [symmetric] of_int_le_iff)
  also have "\<dots> < pow2 1024" by (simp add: pow2_nat)
  finally show "\<bar>rat_of_int n\<bar> < pow2 1024" .
qed (simp_all add: pow2_def)

lemma is_f64_zero [simp]: "is_f64 0"
  by (simp add: is_f64_def)

text \<open>Rounding is idempotent: every finite result is representable.\<close>

lemma round64_is_f64: "round64 q = Fin r \<Longrightarrow> is_f64 r"
proof (cases "q = 0")
  case False
  assume "round64 q = Fin r"
  with False have r: "\<bar>r\<bar> = round_abs \<bar>q\<bar>" "\<bar>r\<bar> < pow2 1024"
    "r = round_abs \<bar>q\<bar> \<or> r = - round_abs \<bar>q\<bar>"
    by (auto simp: round64_def Let_def not_le round_abs_nonneg split: if_splits)
  let ?e = "ulp_exp \<bar>q\<bar>" and ?m = "rne (\<bar>q\<bar> / pow2 (ulp_exp \<bar>q\<bar>))"
  have "\<bar>q\<bar> < pow2 (ilog2 \<bar>q\<bar> + 1)" using False by (intro ilog2_bounds) simp
  also have "\<dots> \<le> pow2 (53 + ?e)" by (rule pow2_mono) (simp add: ulp_exp_def)
  finally have "\<bar>q\<bar> / pow2 ?e \<le> of_int (2 ^ 53)"
    by (simp add: pow2_add pow2_nat [of 53] pos_divide_le_eq)
  then have m: "?m \<le> 2 ^ 53" "0 \<le> ?m"
    by (rule rne_le, intro rne_nonneg divide_nonneg_pos) auto
  have "round_abs \<bar>q\<bar> = of_int ?m * pow2 ?e" by (simp add: round_abs_def)
  then have "r = of_int ?m * pow2 ?e \<or> r = of_int (- ?m) * pow2 ?e" using r(3) by auto
  then show ?thesis
  proof
    assume "r = of_int ?m * pow2 ?e"
    then show ?thesis by (rule is_f64I) (use m r in \<open>auto simp: ulp_exp_def\<close>)
  next
    assume "r = of_int (- ?m) * pow2 ?e"
    then show ?thesis by (rule is_f64I) (use m r in \<open>auto simp: ulp_exp_def\<close>)
  qed
qed simp

section \<open>Decimal grids\<close>

text \<open>
  Times reach the program as decimals with six places (microseconds) and leave it with
  three (milliseconds).  What the client proofs need of the rounding is its relative error
  bound; from it follows that scaling, subtracting and rounding recover the integers.
\<close>

locale rounding =
  fixes rnd :: "rat \<Rightarrow> f64"
  assumes rnd_zero: "rnd 0 = Fin 0"
    and rnd_close: "pow2 (- 1022) \<le> \<bar>q\<bar> \<Longrightarrow> \<bar>q\<bar> \<le> 2 ^ 1000 \<Longrightarrow>
      \<exists>r. rnd q = Fin r \<and> \<bar>r - q\<bar> \<le> \<bar>q\<bar> / 2 ^ 53"
begin

lemma rnd_pos:
  assumes "1 / 2 ^ 60 \<le> q" and "q \<le> 2 ^ 60"
  obtains r where "rnd q = Fin r" and "r \<le> q + q / 2 ^ 53" and "q - q / 2 ^ 53 \<le> r"
proof -
  have "pow2 (- 1022) \<le> pow2 (- 60)" by (rule pow2_mono) simp
  also have "\<dots> = 1 / 2 ^ 60" by (simp add: pow2_def power_int_def field_simps)
  finally have lo: "pow2 (- 1022) \<le> \<bar>q\<bar>" using assms(1) by linarith
  have "0 \<le> q" by (rule order_trans [OF _ assms(1)]) simp
  moreover have "q \<le> 2 ^ 1000" by (rule order_trans [OF assms(2)]) simp
  ultimately obtain r where "rnd q = Fin r" and "\<bar>r - q\<bar> \<le> q / 2 ^ 53"
    using rnd_close [OF lo] by auto
  then show thesis using that [of r] by (auto simp only: abs_le_iff)
qed

lemma grid_seconds:
  assumes "0 < k" and "k \<le> 2 ^ 45"
  obtains s a b where "rnd (of_int k / 10 ^ 6) = Fin s" and "0 < s"
    and "rnd (s * 1000) = Fin a" and "rnd (a * 1000) = Fin b" and "round_away b = k"
proof -
  let ?k = "rat_of_int k"
  have k: "1 \<le> ?k" "?k \<le> 2 ^ 45"
    using assms of_int_le_iff [of 1 k] of_int_le_iff [of k "2 ^ 45"] by simp_all
  obtain s where s: "rnd (?k / 10 ^ 6) = Fin s"
    "s \<le> ?k / 10 ^ 6 + ?k / 10 ^ 6 / 2 ^ 53" "?k / 10 ^ 6 - ?k / 10 ^ 6 / 2 ^ 53 \<le> s"
    by (rule rnd_pos [of "?k / 10 ^ 6"]) (use k in simp_all)
  obtain a where a: "rnd (s * 1000) = Fin a"
    "a \<le> s * 1000 + s * 1000 / 2 ^ 53" "s * 1000 - s * 1000 / 2 ^ 53 \<le> a"
    by (rule rnd_pos [of "s * 1000"]) (use k s in simp_all)
  obtain b where b: "rnd (a * 1000) = Fin b"
    "b \<le> a * 1000 + a * 1000 / 2 ^ 53" "a * 1000 - a * 1000 / 2 ^ 53 \<le> b"
    by (rule rnd_pos [of "a * 1000"]) (use k s a in simp_all)
  have "0 < s" using k s by simp
  moreover have "round_away b = k"
    by (rule round_away_nearI) (use k s a b in simp_all)
  ultimately show thesis using that s(1) a(1) b(1) by blast
qed

lemma grid_delta:
  assumes "0 \<le> j" and "j < i" and "i \<le> 2 ^ 45"
  obtains x y d m where "rnd (of_int i / 1000) = Fin x" and "rnd (of_int j / 1000) = Fin y"
    and "y < x" and "rnd (x - y) = Fin d" and "0 < d" and "rnd (d * 1000) = Fin m"
    and "round_away m = i - j"
proof -
  let ?i = "rat_of_int i" and ?j = "rat_of_int j"
  have ij: "0 \<le> ?j" "?j + 1 \<le> ?i" "?i \<le> 2 ^ 45"
    using assms of_int_le_iff [of "j + 1" i] of_int_le_iff [of i "2 ^ 45"] by simp_all
  obtain x where x: "rnd (?i / 1000) = Fin x"
    "x \<le> ?i / 1000 + ?i / 1000 / 2 ^ 53" "?i / 1000 - ?i / 1000 / 2 ^ 53 \<le> x"
    by (rule rnd_pos [of "?i / 1000"]) (use ij in simp_all)
  obtain y where y: "rnd (?j / 1000) = Fin y"
    "y \<le> ?j / 1000 + ?j / 1000 / 2 ^ 53" "?j / 1000 - ?j / 1000 / 2 ^ 53 \<le> y"
  proof (cases "j = 0")
    case True
    then show thesis using that [of 0] rnd_zero by simp
  next
    case False
    then have "1 \<le> ?j" using assms(1) of_int_le_iff [of 1 j] by simp
    then show thesis using that by (rule_tac rnd_pos [of "?j / 1000"]) (use ij in simp_all)
  qed
  have lt: "y < x" using ij x y by simp
  define z where "z = x - y"
  have z: "z = x - y" "1 / 2000 \<le> z" "z \<le> 2 ^ 36" using ij x y by (simp_all add: z_def)
  have near: "?i / 1000 - ?j / 1000 - 1 / 100000 \<le> z" "z \<le> ?i / 1000 - ?j / 1000 + 1 / 100000"
    using ij x y by (simp_all add: z_def)
  obtain d where d: "rnd z = Fin d" "d \<le> z + z / 2 ^ 53" "z - z / 2 ^ 53 \<le> d"
    by (rule rnd_pos [of z]) (use z in simp_all)
  have pos: "0 < d" using z(2,3) d by simp
  obtain m where m: "rnd (d * 1000) = Fin m"
    "m \<le> d * 1000 + d * 1000 / 2 ^ 53" "d * 1000 - d * 1000 / 2 ^ 53 \<le> m"
    by (rule rnd_pos [of "d * 1000"]) (use z(2,3) d in simp_all)
  have "round_away m = i - j"
    by (rule round_away_nearI) (use ij near z(2,3) d m in simp_all)
  with that x(1) y(1) lt d(1) [unfolded z(1)] pos m(1) show thesis by blast
qed

end

interpretation binary64: rounding round64
  by unfold_locales (simp, rule round64_close)

end
