(* ===== verification/Blobs.thy ===== *)
theory Blobs
  imports Config Float64 "HOL-Library.Multiset"
begin

text \<open>
  Package \<open>internal/blobs\<close> (\<open>store.go\<close>): the blob store on the persistent volume.

  State: the directory \<open>DATA_DIR/blobs\<close> as an association list from entry names to
  entries, whether the directory itself still exists, the size limit, and the random source.
  Blobs, checksum sidecars and temporary files live in the same directory, as in the code.
  File contents are byte strings.  \<open>crypto/sha256\<close> is the argument \<open>digest\<close>, an arbitrary
  function.

  What the operating system decides is in the record \<open>io_env\<close>: which call fails, how many
  bytes a failing sidecar write leaves, the clock, the measured duration and the suffix
  \<open>os.CreateTemp\<close> draws.  A reader delivers its bytes and then either ends or fails.
\<close>

section \<open>Directories\<close>

text \<open>An entry of the directory: a file (content, modification time) or a subdirectory (empty or not).\<close>

datatype entry = File string int | SubDir bool

type_synonym dir = "(string \<times> entry) list"

locale directory =
  fixes get :: "'d \<Rightarrow> string \<Rightarrow> 'e option"
    and put :: "string \<Rightarrow> 'e \<Rightarrow> 'd \<Rightarrow> 'd"
    and del :: "string \<Rightarrow> 'd \<Rightarrow> 'd"
  assumes get_put: "get (put n x d) = (get d)(n \<mapsto> x)"
    and get_del: "get (del n d) = (get d)(n := None)"
begin

text \<open>\<open>os.Rename\<close> of a file over another one: the target gets the content, the source goes.\<close>

lemma get_rename: "get (put b x (del a d)) c = (if c = b then Some x else if c = a then None else get d c)"
  by (simp add: get_put get_del)

text \<open>A temporary file that is created and removed leaves no trace.\<close>

lemma get_temp: "get d t = None \<Longrightarrow> get (del t (put t x (put t y d))) = get d"
  by (simp add: get_put get_del fun_upd_idem)

end

interpretation blob_dir: directory map_of AList.update AList.delete
  by unfold_locales (simp_all add: update_conv' delete_conv')

declare blob_dir.get_put [fs_simps] blob_dir.get_del [fs_simps] blob_dir.get_rename [fs_simps]

section \<open>State, environment and errors\<close>

datatype io_op =
    MkdirAll | CreateTemp | CopyWrite | ChmodTemp | SyncTemp | CloseTemp | RenameTemp | RemoveTemp
  | SidecarOpen | SidecarWrite | StatFinal | OpenFile | StatFile | ReadSidecar
  | RemoveFile | RemoveSidecar | ReadDir | EntryInfo string

record io_env =
  io_fails :: "io_op \<Rightarrow> bool"
  io_cut :: nat
  io_now :: int
  io_write_us :: int
  io_suffix :: string
  io_dir_size :: int

record reader =
  rd_bytes :: string
  rd_fails :: bool

datatype blob_sentinel =
  ErrInvalidName | ErrTooLarge | ErrNotFound | ErrSizeMismatch | ErrLengthMismatch

type_synonym blob_error = "blob_sentinel gerror"

record info =
  i_name :: string
  i_bytes :: int
  i_sha256 :: string
  i_modified :: int
  i_write_ms :: f64
  i_read_ms :: f64

record store =
  st_exists :: bool
  st_dir :: dir
  st_max :: int
  st_random :: "reader option"

section \<open>Names and paths\<close>

text \<open>The character class of \<open>blobNamePattern\<close>.\<close>

definition name_char :: "char \<Rightarrow> bool" where
  "name_char c \<longleftrightarrow> in_range c 65 90 \<or> in_range c 97 122 \<or> in_range c 48 57
     \<or> c = CHR ''.'' \<or> c = CHR ''_'' \<or> c = CHR ''-''"

definition blob_name_pattern :: "string \<Rightarrow> bool" where
  "blob_name_pattern s \<longleftrightarrow> s \<noteq> [] \<and> list_all name_char s"

definition validate_name :: "string \<Rightarrow> blob_sentinel option" where
  "validate_name name =
     (if name = [] \<or> max_blob_name_length < length name then Some ErrInvalidName
      else if contains name ''/'' \<or> contains name [CHR 0x5C] \<or> contains name ''..''
        then Some ErrInvalidName
      else if \<not> blob_name_pattern name then Some ErrInvalidName
      else None)"

text \<open>
  \<open>filepath.Join(dir, name)\<close> for a name without separators: the entry of that name, except
  that the name of one dot is cleaned away and leaves the directory itself.
\<close>

datatype target = DirItself | Entry string

definition store_path :: "string \<Rightarrow> target" where
  "store_path name = (if name = ''.'' then DirItself else Entry name)"

definition hash_path :: "string \<Rightarrow> string" where
  "hash_path name = name @ ''.sha256''"

definition temp_path :: "io_env \<Rightarrow> string \<Rightarrow> string" where
  "temp_path env name = ''.'' @ name @ ''.tmp-'' @ io_suffix env"

section \<open>Reading and checksums\<close>

text \<open>
  \<open>io.LimitReader(src, limit)\<close> read to its end: the bytes delivered, whether the source
  failed before the limit, and what is left of the source.  A limit that is not positive
  delivers nothing.
\<close>

definition read_limited :: "int \<Rightarrow> reader \<Rightarrow> string \<times> bool \<times> reader" where
  "read_limited limit src =
     (take (nat limit) (rd_bytes src),
      rd_fails src \<and> length (rd_bytes src) < nat limit,
      src\<lparr>rd_bytes := drop (nat limit) (rd_bytes src)\<rparr>)"

definition ms_since :: "int \<Rightarrow> f64" where
  "ms_since us = fdiv (of_int64 us) (Fin 1000)"

definition read_hash_sidecar :: "io_env \<Rightarrow> dir \<Rightarrow> string \<Rightarrow> string" where
  "read_hash_sidecar env d path =
     (if io_fails env ReadSidecar then []
      else case map_of d path of Some (File data _) \<Rightarrow> trim_space data | _ \<Rightarrow> [])"

section \<open>Operations\<close>

definition new_store :: "io_env \<Rightarrow> dir \<Rightarrow> int \<Rightarrow> reader option \<Rightarrow> blob_error + store" where
  "new_store env existing max_bytes random =
     (if max_bytes \<le> 0 then Inl (Message ''max blob bytes must be greater than 0'')
      else if io_fails env MkdirAll then Inl (Wrapped ''create blobs directory'' (SysErr ''mkdir''))
      else Inr \<lparr>st_exists = True, st_dir = existing, st_max = max_bytes, st_random = random\<rparr>)"

text \<open>
  \<open>writeFrom\<close>: copy to a temporary file, check the size, rename it over the blob, write the
  sidecar.  The deferred function removes the temporary file on every path on which it still
  exists.  The result holds what is left of the source.
\<close>

definition drop_temp :: "io_env \<Rightarrow> string \<Rightarrow> dir \<Rightarrow> dir" where
  "drop_temp env tmp d = (if io_fails env RemoveTemp then d else AList.delete tmp d)"

definition is_subdir :: "dir \<Rightarrow> string \<Rightarrow> bool" where
  "is_subdir d n = (case map_of d n of Some (SubDir _) \<Rightarrow> True | _ \<Rightarrow> False)"

definition write_sidecar :: "io_env \<Rightarrow> string \<Rightarrow> string \<Rightarrow> dir \<Rightarrow> bool \<times> dir" where
  "write_sidecar env path text d =
     (if io_fails env SidecarOpen \<or> is_subdir d path then (False, d)
      else if io_fails env SidecarWrite
        then (False, AList.update path (File (take (io_cut env) text) (io_now env)) d)
      else (True, AList.update path (File text (io_now env)) d))"

text \<open>The checks between the copy and the rename; \<open>None\<close> when all pass.\<close>

definition temp_error :: "io_env \<Rightarrow> store \<Rightarrow> string \<Rightarrow> bool \<Rightarrow> int \<Rightarrow> int \<Rightarrow> bool \<Rightarrow> blob_error option" where
  "temp_error env s name copy_failed written expected exact =
     (if copy_failed then Some (Wrapped (''write blob '' @ name) (SysErr ''copy''))
      else if st_max s < written then Some (Sentinel ErrTooLarge)
      else if exact \<and> written \<noteq> expected then Some (Sentinel ErrSizeMismatch)
      else if io_fails env ChmodTemp then Some (Wrapped ''chmod blob temp'' (SysErr ''chmod''))
      else if io_fails env SyncTemp then Some (Wrapped ''sync blob temp'' (SysErr ''fsync''))
      else if io_fails env CloseTemp then Some (Wrapped ''close blob temp'' (SysErr ''close''))
      else if io_fails env RenameTemp \<or> store_path name = DirItself \<or> is_subdir (st_dir s) name
        then Some (Wrapped (''rename blob '' @ name) (SysErr ''rename''))
      else None)"

definition write_from ::
  "io_env \<Rightarrow> (string \<Rightarrow> string) \<Rightarrow> store \<Rightarrow> string \<Rightarrow> reader \<Rightarrow> int \<Rightarrow> int \<Rightarrow> bool
     \<Rightarrow> (blob_error + info) \<times> store \<times> reader" where
  "write_from env digest s name src limit expected exact =
     (let tmp = temp_path env name
      in if \<not> st_exists s \<or> io_fails env CreateTemp \<or> map_of (st_dir s) tmp \<noteq> None
           then (Inl (Wrapped ''create temp blob'' (SysErr ''create'')), s, src)
         else
           let (data, read_failed, rest) = read_limited limit src;
               copied = (if io_fails env CopyWrite then take (io_cut env) data else data);
               d1 = AList.update tmp (File copied (io_now env)) (st_dir s);
               written = int (length data)
           in case temp_error env s name (read_failed \<or> io_fails env CopyWrite) written expected exact of
                Some e \<Rightarrow> (Inl e, s\<lparr>st_dir := drop_temp env tmp d1\<rparr>, rest)
              | None \<Rightarrow>
                let d2 = AList.update name (File data (io_now env)) (AList.delete tmp d1);
                    digest_hex = hex_encode (digest data);
                    (ok, d3) = write_sidecar env (hash_path name) (digest_hex @ [CHR 0x0A]) d2
                in if \<not> ok
                   then (Inl (Wrapped (''write blob hash '' @ name) (SysErr ''write'')), s\<lparr>st_dir := d3\<rparr>, rest)
                   else (Inr \<lparr>i_name = name, i_bytes = written, i_sha256 = digest_hex,
                              i_modified = io_now env, i_write_ms = ms_since (io_write_us env),
                              i_read_ms = Fin 0\<rparr>,
                         s\<lparr>st_dir := d3\<rparr>, rest))"

definition generate ::
  "io_env \<Rightarrow> (string \<Rightarrow> string) \<Rightarrow> store \<Rightarrow> string \<Rightarrow> int \<Rightarrow> (blob_error + info) \<times> store" where
  "generate env digest s name sz =
     (case validate_name name of
        Some e \<Rightarrow> (Inl (Wrapped ''generate blob'' (Sentinel e)), s)
      | None \<Rightarrow>
          if sz \<le> 0 then (Inl (Message ''size must be greater than 0''), s)
          else if st_max s < sz then (Inl (Sentinel ErrTooLarge), s)
          else case st_random s of
                 None \<Rightarrow> (Inl (Message ''random source is not configured''), s)
               | Some random \<Rightarrow>
                   let (r, s', rest) = write_from env digest s name random sz sz True
                   in (r, s'\<lparr>st_random := Some rest\<rparr>))"

definition remove_entry :: "bool \<Rightarrow> string \<Rightarrow> dir \<Rightarrow> bool \<times> dir" where
  "remove_entry fails n d =
     (case map_of d n of
        None \<Rightarrow> (False, d)
      | Some (SubDir False) \<Rightarrow> (False, d)
      | Some _ \<Rightarrow> if fails then (False, d) else (True, AList.delete n d))"

text \<open>
  \<open>os.Remove(path)\<close> then \<open>os.Remove(hashPath)\<close>; a failure of the second is only logged.
  Removing the directory itself succeeds when it is empty.
\<close>

definition delete_blob :: "io_env \<Rightarrow> store \<Rightarrow> string \<Rightarrow> blob_error option \<times> store" where
  "delete_blob env s name =
     (case validate_name name of
        Some e \<Rightarrow> (Some (Wrapped ''delete blob'' (Sentinel e)), s)
      | None \<Rightarrow>
          let fails = io_fails env RemoveFile;
              absent = (\<not> st_exists s \<or> (store_path name \<noteq> DirItself \<and> map_of (st_dir s) name = None));
              (removed, s1) =
                (case store_path name of
                   DirItself \<Rightarrow>
                     if st_exists s \<and> st_dir s = [] \<and> \<not> fails then (True, s\<lparr>st_exists := False\<rparr>) else (False, s)
                 | Entry n \<Rightarrow>
                     (let (ok, d) = remove_entry fails n (st_dir s) in (ok, s\<lparr>st_dir := d\<rparr>)));
              s2 = s1\<lparr>st_dir := snd (remove_entry (io_fails env RemoveSidecar) (hash_path name) (st_dir s1))\<rparr>
          in if removed then (None, s2)
             else if absent then (Some (Sentinel ErrNotFound), s2)
             else (Some (Wrapped (''delete blob '' @ name) (SysErr ''remove'')), s2))"

definition remove_best_effort :: "io_env \<Rightarrow> store \<Rightarrow> string \<Rightarrow> blob_error option \<times> store" where
  "remove_best_effort env s name =
     (let (e, s') = delete_blob env s name
      in case e of
           None \<Rightarrow> (None, s')
         | Some err \<Rightarrow> if errors_is err ErrNotFound then (None, s')
                       else (Some (Wrapped (''remove rejected blob '' @ name) err), s'))"

definition put ::
  "io_env \<Rightarrow> (string \<Rightarrow> string) \<Rightarrow> store \<Rightarrow> string \<Rightarrow> reader \<Rightarrow> int \<Rightarrow> (blob_error + info) \<times> store" where
  "put env digest s name body expected =
     (case validate_name name of
        Some e \<Rightarrow> (Inl (Wrapped ''put blob'' (Sentinel e)), s)
      | None \<Rightarrow>
          if st_max s < expected then (Inl (Sentinel ErrTooLarge), s)
          else
            let limit = (if 0 < expected then expected else st_max s);
                (r, s1, rest) = write_from env digest s name body (wrap64 (limit + 1)) expected False;
                reject = (\<lambda>e. case remove_best_effort env s1 name of
                                 (Some err, s2) \<Rightarrow> (Inl err, s2)
                               | (None, s2) \<Rightarrow> (Inl (Sentinel e), s2))
            in case r of
                 Inl err \<Rightarrow> (Inl (Wrapped (''put blob '' @ name) err), s1)
               | Inr info \<Rightarrow>
                   if st_max s < i_bytes info then reject ErrTooLarge
                   else if 0 < expected \<and> i_bytes info \<noteq> expected then reject ErrLengthMismatch
                   else (Inr info, s1))"

text \<open>An open handle: a file with its content, or the directory (reading it fails).\<close>

datatype handle = FileHandle string | DirHandle

definition open_blob :: "io_env \<Rightarrow> store \<Rightarrow> string \<Rightarrow> blob_error + (handle \<times> info)" where
  "open_blob env s name =
     (case validate_name name of
        Some e \<Rightarrow> Inl (Wrapped ''open blob'' (Sentinel e))
      | None \<Rightarrow>
          let found = (if \<not> st_exists s then None
                       else case store_path name of
                              DirItself \<Rightarrow> Some (DirHandle, io_dir_size env, 0)
                            | Entry n \<Rightarrow>
                                (case map_of (st_dir s) n of
                                   None \<Rightarrow> None
                                 | Some (File data t) \<Rightarrow> Some (FileHandle data, int (length data), t)
                                 | Some (SubDir _) \<Rightarrow> Some (DirHandle, io_dir_size env, 0)))
          in case found of
               None \<Rightarrow> Inl (Sentinel ErrNotFound)
             | Some (h, sz, t) \<Rightarrow>
                 if io_fails env OpenFile then Inl (Wrapped (''open blob '' @ name) (SysErr ''open''))
                 else if io_fails env StatFile then Inl (Wrapped (''stat blob '' @ name) (SysErr ''stat''))
                 else Inr (h, \<lparr>i_name = name, i_bytes = sz,
                               i_sha256 = read_hash_sidecar env (st_dir s) (hash_path name),
                               i_modified = t, i_write_ms = Fin 0, i_read_ms = Fin 0\<rparr>))"

fun list_entries :: "io_env \<Rightarrow> dir \<Rightarrow> dir \<Rightarrow> info list" where
  "list_entries env d [] = []"
| "list_entries env d ((n, SubDir _) # es) = list_entries env d es"
| "list_entries env d ((n, File data t) # es) =
     (if has_suffix n ''.sha256'' then list_entries env d es
      else if validate_name n \<noteq> None then list_entries env d es
      else if io_fails env (EntryInfo n) then list_entries env d es
      else \<lparr>i_name = n, i_bytes = int (length data),
            i_sha256 = read_hash_sidecar env d (hash_path n),
            i_modified = t, i_write_ms = Fin 0, i_read_ms = Fin 0\<rparr> # list_entries env d es)"

text \<open>\<open>os.ReadDir\<close> returns the entries in the order of their names.\<close>

definition list_blobs :: "io_env \<Rightarrow> store \<Rightarrow> blob_error + info list" where
  "list_blobs env s =
     (if \<not> st_exists s \<or> io_fails env ReadDir then Inl (Wrapped ''list blobs'' (SysErr ''readdir''))
      else Inr (list_entries env (st_dir s) (sort_key fst (st_dir s))))"

section \<open>Lemmas\<close>

text \<open>What the store sees of a name: the content of a file entry.\<close>

definition stored :: "store \<Rightarrow> string \<Rightarrow> entry option" where
  "stored s n = map_of (st_dir s) n"

abbreviation blob_data :: "reader \<Rightarrow> int \<Rightarrow> string" where
  "blob_data src limit \<equiv> take (nat limit) (rd_bytes src)"

abbreviation sidecar_text :: "(string \<Rightarrow> string) \<Rightarrow> string \<Rightarrow> string" where
  "sidecar_text digest data \<equiv> hex_encode (digest data) @ [CHR 0x0A]"

lemma hash_path_neq [simp]: "hash_path n \<noteq> n" "n \<noteq> hash_path n"
  by (simp_all add: hash_path_def)

lemma temp_path_neq [simp]: "temp_path env n \<noteq> n" "n \<noteq> temp_path env n"
  by (simp_all add: temp_path_def)

lemma validate_name_valid: "validate_name n = None \<Longrightarrow> n \<noteq> []"
  by (auto simp: validate_name_def)

lemma write_sidecar_cases:
  assumes "write_sidecar env path text d = (ok, d')"
  obtains (ok) "ok" "d' = AList.update path (File text (io_now env)) d"
  | (unchanged) "\<not> ok" "d' = d"
  | (cut) "\<not> ok" "d' = AList.update path (File (take (io_cut env) text) (io_now env)) d"
  using assms by (auto simp: write_sidecar_def split: if_splits)

text \<open>
  The three outcomes of \<open>writeFrom\<close>: nothing happened to the directory but for the temporary
  file; the blob was replaced and its sidecar not, or only in part; or both were written.
\<close>

definition wrote :: "io_env \<Rightarrow> (string \<Rightarrow> string) \<Rightarrow> store \<Rightarrow> string \<Rightarrow> string \<Rightarrow> store \<Rightarrow> bool" where
  "wrote env digest s name data s' \<longleftrightarrow>
     map_of (st_dir s') = (map_of (st_dir s))
       (name \<mapsto> File data (io_now env), hash_path name \<mapsto> File (sidecar_text digest data) (io_now env))"

text \<open>The four ways through \<open>writeFrom\<close>.\<close>

lemma write_from_cases:
  assumes "write_from env digest s name src limit expected exact = (r, s', rest)"
  obtains (no_temp) "s' = s" "\<exists>e. r = Inl e"
  | (rejected) x e where "map_of (st_dir s) (temp_path env name) = None" "r = Inl e"
      "temp_error env s name (rd_fails src \<and> length (rd_bytes src) < nat limit \<or> io_fails env CopyWrite)
         (int (length (blob_data src limit))) expected exact = Some e"
      "s' = s\<lparr>st_dir := drop_temp env (temp_path env name)
         (AList.update (temp_path env name) (File x (io_now env)) (st_dir s))\<rparr>"
  | (renamed) ok d3 where "map_of (st_dir s) (temp_path env name) = None" "st_exists s"
      "temp_error env s name (rd_fails src \<and> length (rd_bytes src) < nat limit \<or> io_fails env CopyWrite)
         (int (length (blob_data src limit))) expected exact = None"
      "write_sidecar env (hash_path name) (sidecar_text digest (blob_data src limit))
         (AList.update name (File (blob_data src limit) (io_now env))
           (AList.delete (temp_path env name)
             (AList.update (temp_path env name) (File (blob_data src limit) (io_now env)) (st_dir s))))
         = (ok, d3)"
      "s' = s\<lparr>st_dir := d3\<rparr>"
      "if ok then r = Inr \<lparr>i_name = name, i_bytes = int (length (blob_data src limit)),
           i_sha256 = hex_encode (digest (blob_data src limit)), i_modified = io_now env,
           i_write_ms = ms_since (io_write_us env), i_read_ms = Fin 0\<rparr> else \<exists>e. r = Inl e"
proof (cases "\<not> st_exists s \<or> io_fails env CreateTemp \<or> map_of (st_dir s) (temp_path env name) \<noteq> None")
  case True
  with assms show thesis by (intro no_temp) (auto simp: write_from_def)
next
  case False
  let ?data = "blob_data src limit"
  let ?te = "temp_error env s name (rd_fails src \<and> length (rd_bytes src) < nat limit \<or> io_fails env CopyWrite)
         (int (length ?data)) expected exact"
  note unfolded = assms [unfolded write_from_def read_limited_def Let_def]
  show thesis
  proof (cases ?te)
    case (Some e)
    with False unfolded show thesis by (intro rejected [of e]) auto
  next
    case None
    then have copied: "\<not> io_fails env CopyWrite" by (auto simp: temp_error_def)
    let ?d2 = "AList.update name (File ?data (io_now env)) (AList.delete (temp_path env name)
      (AList.update (temp_path env name) (File ?data (io_now env)) (st_dir s)))"
    obtain ok d3 where sc: "write_sidecar env (hash_path name) (sidecar_text digest ?data) ?d2 = (ok, d3)"
      by fastforce
    show thesis
      by (rule renamed [OF _ _ None sc]; use False unfolded None copied sc in \<open>cases ok; auto\<close>)
  qed
qed

lemma temp_error_None:
  assumes "temp_error env s name failed written expected exact = None"
  shows "\<not> failed" "written \<le> st_max s" "exact \<Longrightarrow> written = expected" "name \<noteq> ''.''"
    "\<not> is_subdir (st_dir s) name"
  using assms by (auto simp: temp_error_def store_path_def split: if_splits)

lemma write_from_store:
  assumes "write_from env digest s name src limit expected exact = (r, s', rest)"
  shows "st_max s' = st_max s" "st_exists s' = st_exists s" "st_random s' = st_random s"
  using assms by (cases rule: write_from_cases; simp)+

text \<open>Success: the blob and its sidecar are written and nothing else changes.\<close>

lemma write_from_ok:
  assumes "write_from env digest s name src limit expected exact = (Inr i, s', rest)"
  shows "map_of (st_dir s') = (map_of (st_dir s))
      (name \<mapsto> File (blob_data src limit) (io_now env),
       hash_path name \<mapsto> File (sidecar_text digest (blob_data src limit)) (io_now env))"
    and "i = \<lparr>i_name = name, i_bytes = int (length (blob_data src limit)),
           i_sha256 = hex_encode (digest (blob_data src limit)), i_modified = io_now env,
           i_write_ms = ms_since (io_write_us env), i_read_ms = Fin 0\<rparr>"
    and "int (length (blob_data src limit)) \<le> st_max s"
    and "\<not> (rd_fails src \<and> length (rd_bytes src) < nat limit)"
    and "exact \<Longrightarrow> int (length (blob_data src limit)) = expected"
    and "st_exists s" and "name \<noteq> ''.''"
proof -
  from assms obtain d3 where free: "map_of (st_dir s) (temp_path env name) = None" and ex: "st_exists s"
    and te: "temp_error env s name (rd_fails src \<and> length (rd_bytes src) < nat limit \<or> io_fails env CopyWrite)
         (int (length (blob_data src limit))) expected exact = None"
    and sc: "write_sidecar env (hash_path name) (sidecar_text digest (blob_data src limit))
         (AList.update name (File (blob_data src limit) (io_now env))
           (AList.delete (temp_path env name)
             (AList.update (temp_path env name) (File (blob_data src limit) (io_now env)) (st_dir s))))
         = (True, d3)"
    and s': "s' = s\<lparr>st_dir := d3\<rparr>"
    and i: "i = \<lparr>i_name = name, i_bytes = int (length (blob_data src limit)),
           i_sha256 = hex_encode (digest (blob_data src limit)), i_modified = io_now env,
           i_write_ms = ms_since (io_write_us env), i_read_ms = Fin 0\<rparr>"
    by (cases rule: write_from_cases) (auto split: if_splits)
  show "map_of (st_dir s') = (map_of (st_dir s))
      (name \<mapsto> File (blob_data src limit) (io_now env),
       hash_path name \<mapsto> File (sidecar_text digest (blob_data src limit)) (io_now env))"
    using sc s' free by (cases rule: write_sidecar_cases) (auto simp: fs_simps fun_eq_iff)
  show "i = \<lparr>i_name = name, i_bytes = int (length (blob_data src limit)),
           i_sha256 = hex_encode (digest (blob_data src limit)), i_modified = io_now env,
           i_write_ms = ms_since (io_write_us env), i_read_ms = Fin 0\<rparr>" by (rule i)
  show "int (length (blob_data src limit)) \<le> st_max s"
    and "\<not> (rd_fails src \<and> length (rd_bytes src) < nat limit)"
    and "exact \<Longrightarrow> int (length (blob_data src limit)) = expected"
    and "st_exists s" and "name \<noteq> ''.''"
    using temp_error_None [OF te] ex by auto
qed

text \<open>Failure: the directory is as before, or the blob is complete and its sidecar is not.\<close>

lemma write_from_error:
  assumes "write_from env digest s name src limit expected exact = (Inl e, s', rest)"
    and "\<not> io_fails env RemoveTemp"
  obtains (unchanged) "map_of (st_dir s') = map_of (st_dir s)"
  | (no_sidecar) "map_of (st_dir s') = (map_of (st_dir s))(name \<mapsto> File (blob_data src limit) (io_now env))"
      "int (length (blob_data src limit)) \<le> st_max s"
  | (cut_sidecar) t where "map_of (st_dir s') = (map_of (st_dir s))(name \<mapsto> File (blob_data src limit) (io_now env),
        hash_path name \<mapsto> File t (io_now env))" "int (length (blob_data src limit)) \<le> st_max s"
      "length t \<le> length (sidecar_text digest (blob_data src limit))"
  using assms(1)
proof (cases rule: write_from_cases)
  case no_temp
  then show thesis by (intro unchanged) simp
next
  case (rejected x)
  then show thesis using assms(2) by (intro unchanged) (auto simp: drop_temp_def fs_simps fun_eq_iff)
next
  case (renamed ok d3)
  note len = temp_error_None(2) [OF renamed(3)]
  from renamed(4) show thesis
  proof (cases rule: write_sidecar_cases)
    case ok
    with renamed(6) show thesis by simp
  next
    case unchanged
    with renamed(1,5) show thesis by (intro no_sidecar [OF _ len]) (auto simp: fs_simps fun_eq_iff)
  next
    case cut
    with renamed(1,5) show thesis by (intro cut_sidecar [OF _ len]) (auto simp: fs_simps fun_eq_iff)
  qed
qed

text \<open>No other entry is touched, whatever fails.\<close>

lemma write_from_frame:
  assumes "write_from env digest s name src limit expected exact = (r, s', rest)"
    and "map_of (st_dir s) k = Some v" and "k \<noteq> name" and "k \<noteq> hash_path name"
  shows "map_of (st_dir s') k = Some v"
  using assms(1)
proof (cases rule: write_from_cases)
  case (rejected x)
  with assms show ?thesis by (auto simp: drop_temp_def fs_simps)
next
  case (renamed ok d3)
  from renamed(4) show ?thesis
    by (cases rule: write_sidecar_cases) (use renamed(1,5) assms in \<open>auto simp: fs_simps\<close>)
qed (use assms in simp)

subsection \<open>Upload and generation\<close>

lemma wrap64_limit: "0 \<le> n \<Longrightarrow> n < max_int64 \<Longrightarrow> wrap64 (n + 1) = n + 1"
  by (rule wrap64_id) (simp add: int64_def)

text \<open>A source of which at most \<open>n\<close> of \<open>n + 1\<close> requested bytes came is exhausted.\<close>

lemma take_all:
  assumes "int (length (take (nat (n + 1)) xs)) \<le> n" and "0 \<le> n"
  shows "take (nat (n + 1)) xs = xs" and "length xs < nat (n + 1)"
  using assms by auto

text \<open>An upload that succeeds.\<close>

lemma put_ok:
  assumes "put env digest s name body expected = (Inr i, s')"
  shows "write_from env digest s name body (wrap64 ((if 0 < expected then expected else st_max s) + 1)) expected False
      = (Inr i, s', snd (snd (write_from env digest s name body
          (wrap64 ((if 0 < expected then expected else st_max s) + 1)) expected False)))"
    and "validate_name name = None" and "expected \<le> st_max s"
    and "0 < expected \<Longrightarrow> i_bytes i = expected"
  using assms by (auto simp: put_def Let_def split: option.splits if_splits sum.splits prod.splits)

lemma put_ok_data:
  assumes "put env digest s name body expected = (Inr i, s')"
    and "0 < st_max s" and "st_max s < max_int64"
  shows "blob_data body (wrap64 ((if 0 < expected then expected else st_max s) + 1)) = rd_bytes body"
    and "\<not> rd_fails body" and "int (length (rd_bytes body)) \<le> st_max s"
    and "0 < expected \<Longrightarrow> int (length (rd_bytes body)) = expected"
proof -
  let ?limit = "if 0 < expected then expected else st_max s"
  note ok = put_ok [OF assms(1)]
  have limit: "0 < ?limit" "?limit \<le> st_max s" using assms(2) ok(3) by auto
  then have w: "wrap64 (?limit + 1) = ?limit + 1" using assms(3) by (intro wrap64_limit) auto
  note wf = write_from_ok [OF ok(1)]
  have "int (length (blob_data body (?limit + 1))) \<le> ?limit"
  proof (cases "0 < expected")
    case True
    with ok(4) wf(2) w show ?thesis by simp
  next
    case False
    with wf(3) w show ?thesis by simp
  qed
  with limit have all: "blob_data body (?limit + 1) = rd_bytes body" "length (rd_bytes body) < nat (?limit + 1)"
    by (intro take_all; simp)+
  with w show "blob_data body (wrap64 (?limit + 1)) = rd_bytes body" by simp
  show "\<not> rd_fails body" using wf(4) w all(2) by simp
  show "int (length (rd_bytes body)) \<le> st_max s" using wf(3) w all(1) by simp
  show "0 < expected \<Longrightarrow> int (length (rd_bytes body)) = expected"
    using ok(4) wf(2) w all(1) by simp
qed

text \<open>The directory after a successful upload.\<close>

lemma put_ok_dir:
  assumes "put env digest s name body expected = (Inr i, s')"
    and "0 < st_max s" and "st_max s < max_int64"
  shows "map_of (st_dir s') = (map_of (st_dir s))(name \<mapsto> File (rd_bytes body) (io_now env),
      hash_path name \<mapsto> File (sidecar_text digest (rd_bytes body)) (io_now env))"
    and "st_exists s'" and "name \<noteq> ''.''" and "validate_name name = None"
    and "i = \<lparr>i_name = name, i_bytes = int (length (rd_bytes body)), i_sha256 = hex_encode (digest (rd_bytes body)),
      i_modified = io_now env, i_write_ms = ms_since (io_write_us env), i_read_ms = Fin 0\<rparr>"
  using write_from_ok(1,2,6,7) [OF put_ok(1) [OF assms(1)]] put_ok(2) [OF assms(1)]
    write_from_store(2) [OF put_ok(1) [OF assms(1)]] put_ok_data(1) [OF assms] by simp_all

definition quiet :: "io_env \<Rightarrow> bool" where
  "quiet env \<longleftrightarrow> (\<forall>op. \<not> io_fails env op)"

lemma open_blob_file:
  assumes "validate_name name = None" and "name \<noteq> ''.''" and "st_exists s" and "quiet env"
    and "map_of (st_dir s) name = Some (File data t)"
  shows "open_blob env s name = Inr (FileHandle data,
    \<lparr>i_name = name, i_bytes = int (length data), i_sha256 = read_hash_sidecar env (st_dir s) (hash_path name),
     i_modified = t, i_write_ms = Fin 0, i_read_ms = Fin 0\<rparr>)"
  using assms by (simp add: open_blob_def store_path_def quiet_def)

lemma read_hash_sidecar_file:
  "quiet env \<Longrightarrow> map_of d p = Some (File data t) \<Longrightarrow> read_hash_sidecar env d p = trim_space data"
  by (simp add: read_hash_sidecar_def quiet_def)

lemma put_then_open:
  assumes "put env digest s name body expected = (Inr i, s')"
    and "0 < st_max s" and "st_max s < max_int64" and "quiet env'"
  shows "open_blob env' s' name = Inr (FileHandle (rd_bytes body),
      \<lparr>i_name = name, i_bytes = int (length (rd_bytes body)), i_sha256 = hex_encode (digest (rd_bytes body)),
       i_modified = io_now env, i_write_ms = Fin 0, i_read_ms = Fin 0\<rparr>)"
proof -
  note d = put_ok_dir [OF assms(1-3)]
  have "map_of (st_dir s') name = Some (File (rd_bytes body) (io_now env))" by (simp add: d(1))
  moreover have "map_of (st_dir s') (hash_path name) = Some (File (sidecar_text digest (rd_bytes body)) (io_now env))"
    by (simp add: d(1))
  ultimately show ?thesis
    using open_blob_file [OF d(4,3,2) assms(4)] read_hash_sidecar_file [OF assms(4)]
    by (simp add: trim_hex_newline)
qed

lemma generate_ok:
  assumes "generate env digest s name n = (Inr i, s')"
  obtains random where "st_random s = Some random" and "n \<le> int (length (rd_bytes random))"
    and "0 < n" and "n \<le> st_max s" and "validate_name name = None" and "name \<noteq> ''.''" and "st_exists s'"
    and "map_of (st_dir s') = (map_of (st_dir s))
      (name \<mapsto> File (take (nat n) (rd_bytes random)) (io_now env),
       hash_path name \<mapsto> File (sidecar_text digest (take (nat n) (rd_bytes random))) (io_now env))"
    and "st_random s' = Some (random\<lparr>rd_bytes := drop (nat n) (rd_bytes random)\<rparr>)"
    and "i_bytes i = n" and "i_sha256 i = hex_encode (digest (take (nat n) (rd_bytes random)))"
proof -
  from assms obtain random s1 rest where r: "st_random s = Some random" "validate_name name = None"
    "0 < n" "n \<le> st_max s" and wf: "write_from env digest s name random n n True = (Inr i, s1, rest)"
    and s': "s' = s1\<lparr>st_random := Some rest\<rparr>"
    by (auto simp: generate_def Let_def split: option.splits if_splits prod.splits)
  note ok = write_from_ok [OF wf]
  have len: "int (length (take (nat n) (rd_bytes random))) = n" using ok(5) by simp
  have "rest = random\<lparr>rd_bytes := drop (nat n) (rd_bytes random)\<rparr>"
    using wf by (auto simp: write_from_def read_limited_def Let_def split: if_splits option.splits prod.splits)
  then show thesis
    using that [OF r(1)] r ok len s' write_from_store(2) [OF wf] by simp
qed

subsection \<open>Deletion\<close>

lemma remove_entry_get:
  "map_of (snd (remove_entry fails n d)) =
     (if fst (remove_entry fails n d) then (map_of d)(n := None) else map_of d)"
  by (auto simp: remove_entry_def fs_simps split: option.splits entry.splits bool.splits)

lemma delete_blob_frame:
  assumes "map_of (st_dir s) k = Some v" and "k \<noteq> name" and "k \<noteq> hash_path name"
  shows "map_of (st_dir (snd (delete_blob env s name))) k = Some v"
proof (cases "validate_name name = None \<and> store_path name \<noteq> DirItself")
  case True
  then obtain n where "store_path name = Entry n" "n = name"
    by (auto simp: store_path_def split: if_splits)
  with True assms show ?thesis
    by (simp add: delete_blob_def Let_def case_prod_beta remove_entry_get)
next
  case False
  with assms show ?thesis
    by (auto simp: delete_blob_def Let_def case_prod_beta remove_entry_get split: option.splits)
qed

lemma delete_blob_store: "st_max (snd (delete_blob env s name)) = st_max s"
  by (auto simp: delete_blob_def Let_def split: option.splits target.splits prod.splits)

subsection \<open>All operations\<close>

lemma remove_best_effort_state: "snd (remove_best_effort env s name) = snd (delete_blob env s name)"
  by (simp add: remove_best_effort_def Let_def case_prod_beta split: option.splits)

text \<open>The length of the body that is asked for: one byte more than the limit.\<close>

abbreviation put_limit :: "store \<Rightarrow> int \<Rightarrow> int" where
  "put_limit s expected \<equiv> wrap64 ((if 0 < expected then expected else st_max s) + 1)"

lemma put_cases:
  assumes "put env digest s name body expected = (r, s')"
  obtains (refused) "s' = s" "\<exists>e. r = Inl e"
  | (failed) e rest where "write_from env digest s name body (put_limit s expected) expected False = (Inl e, s', rest)"
      "r = Inl (Wrapped (''put blob '' @ name) e)"
  | (accepted) i rest where "write_from env digest s name body (put_limit s expected) expected False = (Inr i, s', rest)"
      "r = Inr i"
  | (rejected) i s1 rest e where
      "write_from env digest s name body (put_limit s expected) expected False = (Inr i, s1, rest)"
      "r = Inl e" "s' = snd (delete_blob env s1 name)" "0 < expected" "i_bytes i \<noteq> expected"
      "validate_name name = None"
proof (cases "validate_name name \<noteq> None \<or> st_max s < expected")
  case True
  with assms show thesis by (intro refused; cases "validate_name name") (auto simp: put_def)
next
  case False
  obtain r1 s1 rest where wf: "write_from env digest s name body (put_limit s expected) expected False = (r1, s1, rest)"
    by (metis prod_cases3)
  note unfolded = assms [unfolded put_def Let_def wf prod.case]
  show thesis
  proof (cases r1)
    case (Inl e)
    with False wf unfolded show thesis by (intro failed) auto
  next
    case (Inr i)
    with wf have max: "\<not> st_max s < i_bytes i"
      using write_from_ok(2,3) [of env digest s name body "put_limit s expected" expected False i s1 rest] by auto
    show thesis
    proof (cases "0 < expected \<and> i_bytes i \<noteq> expected")
      case True
      with max False wf unfolded Inr remove_best_effort_state [of env s1 name] show thesis
        by (cases "remove_best_effort env s1 name"; cases "fst (remove_best_effort env s1 name)")
           (auto intro: rejected)
    next
      case agree: False
      with max False wf unfolded Inr show thesis by (intro accepted) auto
    qed
  qed
qed

text \<open>The operations that write, with the environment each of them runs in.\<close>

datatype store_op =
    Generate io_env string int
  | Put io_env string reader int
  | Delete io_env string

fun op_name :: "store_op \<Rightarrow> string" where
  "op_name (Generate _ n _) = n"
| "op_name (Put _ n _ _) = n"
| "op_name (Delete _ n) = n"

fun op_env :: "store_op \<Rightarrow> io_env" where
  "op_env (Generate env _ _) = env"
| "op_env (Put env _ _ _) = env"
| "op_env (Delete env _) = env"

fun store_step :: "(string \<Rightarrow> string) \<Rightarrow> store_op \<Rightarrow> store \<Rightarrow> store" where
  "store_step digest (Generate env n sz) s = snd (generate env digest s n sz)"
| "store_step digest (Put env n body expected) s = snd (put env digest s n body expected)"
| "store_step digest (Delete env n) s = snd (delete_blob env s n)"

definition touches :: "store_op \<Rightarrow> string \<Rightarrow> bool" where
  "touches op k \<longleftrightarrow> k = op_name op \<or> k = hash_path (op_name op)"

lemma put_frame:
  assumes "stored s k = Some v" and "k \<noteq> name" and "k \<noteq> hash_path name"
  shows "stored (snd (put env digest s name body expected)) k = Some v"
proof -
  obtain r s' where p: "put env digest s name body expected = (r, s')" by fastforce
  from p have "map_of (st_dir s') k = Some v"
  proof (cases rule: put_cases)
    case (rejected i s1 rest e)
    then show ?thesis
      using delete_blob_frame [OF write_from_frame [OF rejected(1)]] assms by (simp add: stored_def)
  qed (use assms write_from_frame in \<open>auto simp: stored_def\<close>)
  with p show ?thesis by (simp add: stored_def)
qed

lemma generate_frame:
  assumes "stored s k = Some v" and "k \<noteq> name" and "k \<noteq> hash_path name"
  shows "stored (snd (generate env digest s name n)) k = Some v"
  using assms write_from_frame [of env digest s name _ n n True]
  by (auto simp: generate_def stored_def Let_def case_prod_beta split: option.splits)
     (metis prod.collapse)

text \<open>An entry is visible while the directory exists.\<close>

definition visible :: "store \<Rightarrow> string \<Rightarrow> entry option" where
  "visible s n = (if st_exists s then stored s n else None)"

lemma visible_Some: "visible s n = Some v \<longleftrightarrow> st_exists s \<and> stored s n = Some v"
  by (simp add: visible_def)

lemma delete_blob_exists:
  "st_exists s \<Longrightarrow> st_dir s \<noteq> [] \<Longrightarrow> st_exists (snd (delete_blob env s name))"
  by (auto simp: delete_blob_def Let_def case_prod_beta split: option.splits target.splits)

lemma stored_not_empty: "stored s n = Some v \<Longrightarrow> st_dir s \<noteq> []"
  by (auto simp: stored_def)

lemma put_exists:
  assumes "st_exists s"
  shows "st_exists (snd (put env digest s name body expected))"
proof -
  obtain r s' where p: "put env digest s name body expected = (r, s')" by fastforce
  from p have "st_exists s'"
  proof (cases rule: put_cases)
    case (rejected i s1 rest e)
    have "stored s1 name \<noteq> None" using write_from_ok(1) [OF rejected(1)] by (simp add: stored_def)
    then have "st_dir s1 \<noteq> []" by (auto simp: stored_def)
    with rejected assms show ?thesis using write_from_store(2) [OF rejected(1)] delete_blob_exists by simp
  qed (use assms write_from_store(2) in auto)
  with p show ?thesis by simp
qed

lemma generate_exists: "st_exists (snd (generate env digest s name n)) = st_exists s"
  using write_from_store(2) [of env digest s name _ n n True]
  by (auto simp: generate_def Let_def case_prod_beta split: option.splits) (metis prod.collapse)+

interpretation store_frame: framed "store_step digest" visible touches for digest
proof
  fix s k v op
  assume "visible s k = Some v" and "\<not> touches op k"
  then show "visible (store_step digest op s) k = Some v"
    using stored_not_empty [of s k v]
    by (cases op)
       (auto simp: visible_Some touches_def put_frame put_exists generate_frame generate_exists
          delete_blob_exists, simp add: stored_def delete_blob_frame)
qed

text \<open>The size limit as an invariant of the directory.\<close>

definition within_limit :: "store \<Rightarrow> bool" where
  "within_limit s \<longleftrightarrow> (\<forall>n data t. stored s n = Some (File data t) \<longrightarrow> \<not> has_suffix n ''.sha256''
     \<longrightarrow> int (length data) \<le> st_max s)"

lemma within_limitI:
  assumes "within_limit s" and "st_max s' = st_max s"
    and "\<And>k data t. \<lbrakk> stored s' k = Some (File data t); \<not> has_suffix k ''.sha256'' \<rbrakk>
      \<Longrightarrow> stored s k = Some (File data t) \<or> int (length data) \<le> st_max s"
  shows "within_limit s'"
  using assms unfolding within_limit_def by metis

lemma has_suffix_hash_path [simp]: "has_suffix (hash_path n) ''.sha256''"
  by (simp add: hash_path_def)

lemma write_from_limit:
  assumes "within_limit s" and "\<not> io_fails env RemoveTemp"
    and "write_from env digest s name src limit expected exact = (r, s', rest)"
  shows "within_limit s'"
proof (rule within_limitI [OF assms(1) write_from_store(1) [OF assms(3)]])
  fix k data t
  assume k: "stored s' k = Some (File data t)" "\<not> has_suffix k ''.sha256''"
  then have "k \<noteq> hash_path name" by auto
  show "stored s k = Some (File data t) \<or> int (length data) \<le> st_max s"
  proof (cases r)
    case (Inl e)
    from assms(3) [unfolded Inl] assms(2) show ?thesis
      by (cases rule: write_from_error) (use k \<open>k \<noteq> hash_path name\<close> in \<open>auto simp: stored_def split: if_splits\<close>)
  next
    case (Inr i)
    note ok = write_from_ok(1,3) [OF assms(3) [unfolded Inr]]
    with k \<open>k \<noteq> hash_path name\<close> show ?thesis by (auto simp: stored_def split: if_splits)
  qed
qed

lemma delete_blob_get:
  "stored (snd (delete_blob env s name)) k = stored s k \<or> stored (snd (delete_blob env s name)) k = None"
  by (auto simp: stored_def delete_blob_def Let_def case_prod_beta remove_entry_get split: option.splits target.splits)

lemma delete_blob_limit: "within_limit s \<Longrightarrow> within_limit (snd (delete_blob env s name))"
  using delete_blob_get by (intro within_limitI [OF _ delete_blob_store]) (auto, metis option.distinct(1))

lemma put_limit_inv:
  assumes "within_limit s" and "\<not> io_fails env RemoveTemp"
  shows "within_limit (snd (put env digest s name body expected))"
proof -
  obtain r s' where p: "put env digest s name body expected = (r, s')" by fastforce
  from p have "within_limit s'"
    by (cases rule: put_cases) (use assms write_from_limit delete_blob_limit in blast)+
  with p show ?thesis by simp
qed

lemma within_limit_random [simp]: "within_limit (s\<lparr>st_random := x\<rparr>) = within_limit s"
  by (simp add: within_limit_def stored_def)

lemma generate_limit_inv:
  assumes "within_limit s" and "\<not> io_fails env RemoveTemp"
  shows "within_limit (snd (generate env digest s name n))"
  using assms write_from_limit [OF assms, of digest name _ n n True]
  by (auto simp: generate_def Let_def case_prod_beta split: option.splits) (metis prod.collapse)

interpretation store_limit: invariant_system "store_step digest" within_limit
  "\<lambda>op. \<not> io_fails (op_env op) RemoveTemp" for digest
proof
  fix s op
  assume "within_limit s" and "\<not> io_fails (op_env op) RemoveTemp"
  then show "within_limit (store_step digest op s)"
    by (cases op) (simp_all add: put_limit_inv generate_limit_inv delete_blob_limit)
qed

text \<open>No operation changes the limit.\<close>

lemma store_step_max: "st_max (store_step digest op s) = st_max s"
proof (cases op)
  case (Put env name body expected)
  obtain r s' where p: "put env digest s name body expected = (r, s')" by fastforce
  from p have "st_max s' = st_max s"
    by (cases rule: put_cases) (use write_from_store(1) delete_blob_store in \<open>metis, metis, metis, simp\<close>)
  with p Put show ?thesis by simp
next
  case (Generate env name n)
  then show ?thesis
    by (auto simp: generate_def Let_def case_prod_beta split: option.splits) (metis prod.collapse write_from_store(1))
qed (simp add: delete_blob_store)

lemma store_steps_max: "st_max (fold (store_step digest) ops s) = st_max s"
  by (induction ops arbitrary: s) (simp_all add: store_step_max del: store_step.simps)

subsection \<open>Names of entries are unique\<close>

definition unique_names :: "store \<Rightarrow> bool" where
  "unique_names s \<longleftrightarrow> distinct (map fst (st_dir s)) \<and> map_of (st_dir s) ''.'' = None"

lemma remove_entry_distinct: "distinct (map fst d) \<Longrightarrow> distinct (map fst (snd (remove_entry fails n d)))"
  by (auto simp: remove_entry_def distinct_delete split: option.splits entry.splits bool.splits)

lemma write_sidecar_distinct:
  "distinct (map fst d) \<Longrightarrow> distinct (map fst (snd (write_sidecar env path text d)))"
  by (auto simp: write_sidecar_def distinct_update)

subsection \<open>Listing\<close>

definition listed :: "string \<times> entry \<Rightarrow> bool" where
  "listed ne \<longleftrightarrow> (case snd ne of SubDir _ \<Rightarrow> False
     | File _ _ \<Rightarrow> \<not> has_suffix (fst ne) ''.sha256'' \<and> validate_name (fst ne) = None)"

lemma listed_iff:
  "listed (n, e) \<longleftrightarrow> (\<exists>data t. e = File data t) \<and> \<not> has_suffix n ''.sha256'' \<and> validate_name n = None"
  by (cases e) (simp_all add: listed_def)

lemma list_entries_names:
  "quiet env \<Longrightarrow> map i_name (list_entries env d es) = map fst (filter listed es)"
  by (induction env d es rule: list_entries.induct) (auto simp: listed_def quiet_def)

lemma list_entries_info:
  assumes "i \<in> set (list_entries env d es)"
  obtains n data t where "(n, File data t) \<in> set es" and "\<not> has_suffix n ''.sha256''" and "validate_name n = None"
    and "i = \<lparr>i_name = n, i_bytes = int (length data), i_sha256 = read_hash_sidecar env d (hash_path n),
      i_modified = t, i_write_ms = Fin 0, i_read_ms = Fin 0\<rparr>"
  using assms by (induction env d es rule: list_entries.induct) (auto split: if_splits)

definition strictly_sorted :: "string list \<Rightarrow> bool" where
  "strictly_sorted = sorted_wrt (<)"

lemma sort_key_fst: "map fst (sort_key fst d) = sort (map fst (d :: dir))"
  by (rule properties_for_sort [symmetric]) (simp_all)

text \<open>What a deletion that the operating system does not hinder does.\<close>

lemma remove_entry_succeeds:
  "fst (remove_entry False n d) \<longleftrightarrow> map_of d n \<noteq> None \<and> map_of d n \<noteq> Some (SubDir False)"
  by (auto simp: remove_entry_def split: option.splits entry.splits bool.splits)

lemma delete_blob_quiet:
  assumes "quiet env" and "st_exists s" and "name \<noteq> ''.''" and "validate_name name = None"
  shows "fst (delete_blob env s name) = None \<longleftrightarrow> stored s name \<noteq> None \<and> stored s name \<noteq> Some (SubDir False)"
    and "stored (snd (delete_blob env s name)) k =
      (if k = name \<and> stored s name \<noteq> Some (SubDir False) then None
       else if k = hash_path name \<and> stored s (hash_path name) \<noteq> Some (SubDir False) then None
       else stored s k)"
    and "st_exists (snd (delete_blob env s name))"
proof -
  have path: "store_path name = Entry name" using assms(3) by (simp add: store_path_def)
  note unfolded = delete_blob_def Let_def case_prod_beta quiet_def path
  show "fst (delete_blob env s name) = None \<longleftrightarrow> stored s name \<noteq> None \<and> stored s name \<noteq> Some (SubDir False)"
    using assms by (simp add: unfolded stored_def remove_entry_succeeds)
  obtain ok d where r: "remove_entry False name (st_dir s) = (ok, d)" by fastforce
  have "st_dir (snd (delete_blob env s name)) = snd (remove_entry False (hash_path name) d)"
    using assms by (cases ok) (simp_all add: delete_blob_def Let_def quiet_def path r)
  then have "map_of (st_dir (snd (delete_blob env s name)))
      = (if fst (remove_entry False (hash_path name) d) then (map_of d)(hash_path name := None) else map_of d)"
    by (simp add: remove_entry_get)
  moreover have "map_of d = (if ok then (map_of (st_dir s))(name := None) else map_of (st_dir s))"
    using remove_entry_get [of False name "st_dir s"] by (simp add: r)
  moreover have "ok \<longleftrightarrow> map_of (st_dir s) name \<noteq> None \<and> map_of (st_dir s) name \<noteq> Some (SubDir False)"
    using remove_entry_succeeds [of name "st_dir s"] by (simp add: r)
  moreover have "fst (remove_entry False (hash_path name) d)
      \<longleftrightarrow> map_of d (hash_path name) \<noteq> None \<and> map_of d (hash_path name) \<noteq> Some (SubDir False)"
    by (rule remove_entry_succeeds)
  ultimately show "stored (snd (delete_blob env s name)) k =
      (if k = name \<and> stored s name \<noteq> Some (SubDir False) then None
       else if k = hash_path name \<and> stored s (hash_path name) \<noteq> Some (SubDir False) then None
       else stored s k)"
    by (cases ok) (auto simp: stored_def)
  show "st_exists (snd (delete_blob env s name))" using assms by (simp add: unfolded)
qed

subsection \<open>Uploads that nothing hinders\<close>

text \<open>What an upload needs of the directory: a free temporary name and no subdirectory in the way.\<close>

definition put_ready :: "io_env \<Rightarrow> store \<Rightarrow> string \<Rightarrow> bool" where
  "put_ready env s name \<longleftrightarrow> quiet env \<and> st_exists s \<and> validate_name name = None \<and> name \<noteq> ''.''
     \<and> stored s (temp_path env name) = None \<and> \<not> is_subdir (st_dir s) name
     \<and> (\<forall>b. stored s (hash_path name) \<noteq> Some (SubDir b))
     \<and> 0 < st_max s \<and> st_max s < max_int64"

definition put_info :: "io_env \<Rightarrow> (string \<Rightarrow> string) \<Rightarrow> string \<Rightarrow> string \<Rightarrow> info" where
  "put_info env digest name data = \<lparr>i_name = name, i_bytes = int (length data), i_sha256 = hex_encode (digest data),
     i_modified = io_now env, i_write_ms = ms_since (io_write_us env), i_read_ms = Fin 0\<rparr>"

lemma write_from_quiet:
  assumes "put_ready env s name" and "\<not> rd_fails src"
  shows "fst (write_from env digest s name src limit expected False) =
    (if st_max s < int (length (blob_data src limit)) then Inl (Sentinel ErrTooLarge)
     else Inr (put_info env digest name (blob_data src limit)))"
proof -
  have te: "temp_error env s name (rd_fails src \<and> length (rd_bytes src) < nat limit \<or> io_fails env CopyWrite)
      (int (length (blob_data src limit))) expected False
      = (if st_max s < int (length (blob_data src limit)) then Some (Sentinel ErrTooLarge) else None)"
    using assms by (auto simp: temp_error_def put_ready_def quiet_def store_path_def)
  have "\<not> is_subdir (AList.update name x (AList.delete t (AList.update t y (st_dir s)))) (hash_path name)"
    if "t = temp_path env name" for t x y
    using that assms(1) by (auto simp: is_subdir_def put_ready_def stored_def fs_simps split: option.splits entry.splits)
  then have sc: "fst (write_sidecar env (hash_path name) v
      (AList.update name x (AList.delete (temp_path env name) (AList.update (temp_path env name) y (st_dir s)))))" for v x y
    using assms(1) by (simp add: write_sidecar_def put_ready_def quiet_def)
  show ?thesis
    using assms(1) te sc
    by (auto simp: write_from_def read_limited_def Let_def put_ready_def quiet_def stored_def put_info_def
        split: prod.splits) (metis fst_conv)+
qed

lemma take_limit: "0 \<le> n \<Longrightarrow> int (length (take (nat (n + 1)) xs)) = min (n + 1) (int (length xs))"
  by (simp add: min_def) linarith

lemma put_outcome:
  assumes "put_ready env s name" and "\<not> rd_fails body"
  shows "fst (put env digest s name body expected) =
    (if st_max s < expected then Inl (Sentinel ErrTooLarge)
     else if 0 < expected then
       (if int (length (rd_bytes body)) = expected then Inr (put_info env digest name (rd_bytes body))
        else if expected = st_max s \<and> expected < int (length (rd_bytes body))
          then Inl (Wrapped (''put blob '' @ name) (Sentinel ErrTooLarge))
        else Inl (Sentinel ErrLengthMismatch))
     else if st_max s < int (length (rd_bytes body)) then Inl (Wrapped (''put blob '' @ name) (Sentinel ErrTooLarge))
     else Inr (put_info env digest name (rd_bytes body)))"
proof (cases "st_max s < expected")
  case True
  with assms(1) show ?thesis by (simp add: put_def put_ready_def)
next
  case False
  let ?limit = "if 0 < expected then expected else st_max s"
  have lim: "0 \<le> ?limit" "?limit \<le> st_max s" "st_max s < max_int64" and valid: "validate_name name = None"
    using assms(1) False by (auto simp: put_ready_def)
  then have w: "wrap64 (?limit + 1) = ?limit + 1" by (intro wrap64_limit) auto
  let ?data = "blob_data body (?limit + 1)"
  have len: "int (length ?data) = min (?limit + 1) (int (length (rd_bytes body)))" by (rule take_limit [OF lim(1)])
  obtain r1 s1 rest where wf: "write_from env digest s name body (?limit + 1) expected False = (r1, s1, rest)"
    by (metis prod_cases3)
  have r1: "r1 = (if st_max s < int (length ?data) then Inl (Sentinel ErrTooLarge) else Inr (put_info env digest name ?data))"
    using write_from_quiet [OF assms, of digest "?limit + 1" expected] by (simp add: wf)
  note put = put_def [of env digest s name body expected, unfolded Let_def w wf valid option.case prod.case]
  show ?thesis
  proof (cases "st_max s < int (length ?data)")
    case True
    with r1 len lim(2) False show ?thesis by (auto simp: put min_def split: if_splits)
  next
    case small: False
    have all: "?data = rd_bytes body" if "int (length (rd_bytes body)) \<le> ?limit"
      using that lim(1) by simp
    show ?thesis
    proof (cases "0 < expected \<and> int (length ?data) \<noteq> expected")
      case False
      then have "?data = rd_bytes body" using small len lim(1,2) all by (auto simp: min_def split: if_splits)
      with False small r1 \<open>\<not> st_max s < expected\<close> show ?thesis by (auto simp: put put_info_def)
    next
      case True
      have present: "stored s1 name = Some (File ?data (io_now env))"
        using write_from_ok(1) [of env digest s name body "?limit + 1" expected False "put_info env digest name ?data" s1 rest]
          wf r1 small by (simp add: stored_def)
      have "fst (delete_blob env s1 name) = None"
        using delete_blob_quiet(1) [of env s1 name] assms(1) write_from_store(2) [OF wf] present
        by (simp add: put_ready_def)
      then have "fst (remove_best_effort env s1 name) = None"
        by (simp add: remove_best_effort_def Let_def case_prod_beta)
      then obtain s2 where "remove_best_effort env s1 name = (None, s2)" by (metis prod.collapse)
      with True small r1 len lim(2) \<open>\<not> st_max s < expected\<close> show ?thesis
        by (auto simp: put put_info_def min_def split: if_splits)
    qed
  qed
qed

text \<open>What was uploaded stays readable while other names are worked on.\<close>

lemma upload_kept:
  assumes "put env digest s name body expected = (Inr i, s1)"
    and "0 < st_max s" and "st_max s < max_int64"
    and "list_all (\<lambda>op. \<not> touches op name \<and> \<not> touches op (hash_path name)) ops"
    and "quiet env'"
  shows "open_blob env' (fold (store_step digest) ops s1) name = Inr (FileHandle (rd_bytes body),
      \<lparr>i_name = name, i_bytes = int (length (rd_bytes body)), i_sha256 = hex_encode (digest (rd_bytes body)),
       i_modified = io_now env, i_write_ms = Fin 0, i_read_ms = Fin 0\<rparr>)"
proof -
  note d = put_ok_dir [OF assms(1-3)]
  let ?t = "fold (store_step digest) ops s1"
  have blob: "visible ?t name = Some (File (rd_bytes body) (io_now env))"
    using assms(4) d by (intro store_frame.frame_all) (simp_all add: visible_def stored_def list_all_iff)
  have side: "visible ?t (hash_path name) = Some (File (sidecar_text digest (rd_bytes body)) (io_now env))"
    using assms(4) d by (intro store_frame.frame_all) (simp_all add: visible_def stored_def list_all_iff)
  from blob side show ?thesis
    using open_blob_file [OF d(4,3) _ assms(5)] read_hash_sidecar_file [OF assms(5)]
    by (simp add: visible_Some stored_def trim_hex_newline)
qed

section \<open>Properties\<close>

text \<open>C35: A name is accepted exactly when it has 1 to 128 characters, all of them letters, digits, dots,
  underscores or dashes, and no two dots in a row; in particular no accepted name leaves the blob directory.\<close>

theorem validate_name_iff:
  "validate_name n = None \<longleftrightarrow>
     1 \<le> length n \<and> length n \<le> 128 \<and> list_all name_char n \<and> (\<nexists>a b. n = a @ ''..'' @ b)"
proof -
  have "list_all name_char n \<Longrightarrow> CHR ''/'' \<notin> set n \<and> CHR 0x5C \<notin> set n"
    by (auto simp: list_all_iff name_char_def in_range_def)
  then show ?thesis
    by (auto simp: validate_name_def blob_name_pattern_def max_blob_name_length_def contains_conv Suc_le_eq)
qed

text \<open>What an upload stores is what a later download reads, with the size of the body and the
  checksum of the body, whatever other requests write, delete or fail to do to other names in between.\<close>

theorem upload_survives:
  assumes "put env digest s name body expected = (Inr i, s1)"
    and "0 < st_max s" and "st_max s < max_int64"
    and "list_all (\<lambda>op. \<not> touches op name \<and> \<not> touches op (hash_path name)) ops"
    and "quiet env'"
  shows "open_blob env' (fold (store_step digest) ops s1) name = Inr (FileHandle (rd_bytes body),
      \<lparr>i_name = name, i_bytes = int (length (rd_bytes body)), i_sha256 = hex_encode (digest (rd_bytes body)),
       i_modified = io_now env, i_write_ms = Fin 0, i_read_ms = Fin 0\<rparr>)"
  using assms by (rule upload_kept)

definition calm :: io_env where
  "calm = \<lparr>io_fails = (\<lambda>_. False), io_cut = 0, io_now = 7, io_write_us = 1500, io_suffix = ''42'', io_dir_size = 0\<rparr>"

definition checksum_stub :: "string \<Rightarrow> string" where
  "checksum_stub data = [char_of (length data)]"

definition small_store :: store where
  "small_store = \<lparr>st_exists = True, st_dir = [], st_max = 8, st_random = Some \<lparr>rd_bytes = ''qwertyuiop'', rd_fails = True\<rparr>\<rparr>"

lemma calm_simps [simp]: "io_now calm = 7" "st_max small_store = 8" "hex_encode (checksum_stub ''hello'') = ''05''"
  by (simp add: calm_def, simp add: small_store_def, code_simp)

lemma quiet_calm [simp]: "quiet calm"
  by (simp add: quiet_def calm_def)

lemma sample_put:
  "fst (put calm checksum_stub small_store ''a'' \<lparr>rd_bytes = ''hello'', rd_fails = False\<rparr> 5)
     = Inr (put_info calm checksum_stub ''a'' ''hello'')"
proof -
  have "validate_name ''a'' = None" by code_simp
  then have "put_ready calm small_store ''a''"
    by (simp add: put_ready_def small_store_def stored_def is_subdir_def)
  from put_outcome [OF this] show ?thesis by simp
qed

lemma upload_survives_witness:
  "open_blob calm (fold (store_step checksum_stub) [Generate calm ''b'' 3, Delete calm ''b'']
      (snd (put calm checksum_stub small_store ''a'' \<lparr>rd_bytes = ''hello'', rd_fails = False\<rparr> 5))) ''a''
   = Inr (FileHandle ''hello'', \<lparr>i_name = ''a'', i_bytes = 5, i_sha256 = ''05'', i_modified = 7,
       i_write_ms = Fin 0, i_read_ms = Fin 0\<rparr>)"
proof -
  let ?body = "\<lparr>rd_bytes = ''hello'', rd_fails = False\<rparr>"
  let ?p = "put calm checksum_stub small_store ''a'' ?body 5"
  have "\<not> isl (fst ?p)" by (simp add: sample_put)
  then obtain i where "?p = (Inr i, snd ?p)" by (metis isl_def prod.collapse sum.exhaust_sel)
  from upload_survives [OF this, of "[Generate calm ''b'' 3, Delete calm ''b'']" calm]
  show ?thesis by (simp add: touches_def hash_path_def)
qed

text \<open>C13: Whatever calls fail during an upload (the removal of the temporary file excepted), the name
  afterwards holds what it held before, or nothing, or a prefix of the body within the size limit.  When
  \<open>MAX_BLOB_BYTES\<close> is below 2^63-1, an upload that reports success stored the whole body, of the announced length
  if there is one; at 2^63-1, which the configuration accepts, a body of unknown length is stored as an empty
  blob with success (\<open>put_limit_overflow\<close>).\<close>

theorem upload_outcomes:
  assumes "put env digest s name body expected = (r, s')"
    and "\<not> io_fails env RemoveTemp"
  shows "(stored s' name \<in> {stored s name, None}
          \<or> (\<exists>n. stored s' name = Some (File (take n (rd_bytes body)) (io_now env))
                 \<and> int (length (take n (rd_bytes body))) \<le> st_max s))
      \<and> (0 < st_max s \<and> st_max s < max_int64 \<and> \<not> isl r \<longrightarrow> stored s' name = Some (File (rd_bytes body) (io_now env))
             \<and> int (length (rd_bytes body)) \<le> st_max s
             \<and> (0 < expected \<longrightarrow> int (length (rd_bytes body)) = expected))"
proof (intro conjI [where Q = "_ \<longrightarrow> _"] impI)
  show "stored s' name \<in> {stored s name, None}
      \<or> (\<exists>n. stored s' name = Some (File (take n (rd_bytes body)) (io_now env))
             \<and> int (length (take n (rd_bytes body))) \<le> st_max s)"
    using assms(1)
  proof (cases rule: put_cases)
    case (failed e rest)
    from failed(1) assms(2) show ?thesis
      by (cases rule: write_from_error) (auto simp: stored_def)
  next
    case (accepted i rest)
    then show ?thesis using write_from_ok(1,3) [OF accepted(1)] by (auto simp: stored_def)
  next
    case (rejected i s1 rest e)
    have "stored s1 name = Some (File (blob_data body (put_limit s expected)) (io_now env))"
      "int (length (blob_data body (put_limit s expected))) \<le> st_max s"
      using write_from_ok(1,3) [OF rejected(1)] by (simp_all add: stored_def)
    then show ?thesis using delete_blob_get [of env s1 name name] rejected(3) by auto
  qed (simp add: stored_def)
next
  assume ok: "0 < st_max s \<and> st_max s < max_int64 \<and> \<not> isl r"
  then have max: "0 < st_max s" "st_max s < max_int64" by simp_all
  obtain i where r: "r = Inr i" using ok by (cases r) auto
  show "stored s' name = Some (File (rd_bytes body) (io_now env)) \<and> int (length (rd_bytes body)) \<le> st_max s
             \<and> (0 < expected \<longrightarrow> int (length (rd_bytes body)) = expected)"
    using put_ok_dir(1) [OF assms(1) [unfolded r] max] put_ok_data(3,4) [OF assms(1) [unfolded r] max]
    by (simp add: stored_def)
qed

text \<open>Every disk write fails after three bytes.\<close>

definition disk_full :: io_env where
  "disk_full = calm\<lparr>io_fails := (\<lambda>op. op = CopyWrite), io_cut := 3\<rparr>"

lemma upload_outcomes_witness:
  "stored (snd (put calm checksum_stub small_store ''a'' \<lparr>rd_bytes = ''hello'', rd_fails = False\<rparr> 5)) ''a''
     = Some (File ''hello'' 7)"
proof -
  let ?body = "\<lparr>rd_bytes = ''hello'', rd_fails = False\<rparr>"
  let ?q = "put calm checksum_stub small_store ''a'' ?body 5"
  have "\<not> isl (fst ?q)" by (simp add: sample_put)
  moreover have "\<not> io_fails calm RemoveTemp" by (simp add: calm_def)
  ultimately show ?thesis
    using upload_outcomes [of calm checksum_stub small_store "''a''" ?body 5 "fst ?q" "snd ?q"] by simp
qed

lemma disk_full_keeps_nothing:
  "put disk_full checksum_stub small_store ''a'' \<lparr>rd_bytes = ''hello'', rd_fails = False\<rparr> 5
     = (Inl (Wrapped ''put blob a'' (Wrapped ''write blob a'' (SysErr ''copy''))), small_store)"
  by code_simp

text \<open>Starting from a directory whose blobs are within \<open>MAX_BLOB_BYTES\<close>, no sequence of uploads,
  generations and deletions, with any bodies, announced lengths and failing calls (the removal of the
  temporary file excepted), ever leaves a file larger than the limit, checksum sidecars aside.\<close>

theorem blob_size_limit:
  assumes "within_limit s" and "list_all (\<lambda>op. \<not> io_fails (op_env op) RemoveTemp) ops"
  shows "within_limit (fold (store_step digest) ops s)"
  using assms by (rule store_limit.run_inv)

lemma blob_size_limit_witness:
  "within_limit (fold (store_step checksum_stub)
     [Put disk_full ''a'' \<lparr>rd_bytes = ''0123456789'', rd_fails = False\<rparr> 0, Generate calm ''b'' 8] small_store)"
  by (rule blob_size_limit)
     (simp_all add: within_limit_def small_store_def stored_def disk_full_def calm_def)

text \<open>C34: A generated blob holds exactly the requested number of bytes, the next ones of the random source,
  and is reported and downloaded with that size and its checksum; the source advances by just those bytes,
  so two generations never share random bytes.\<close>

theorem generate_exact:
  assumes "generate env digest s name n = (Inr i, s')" and "quiet env'"
  shows "\<exists>random. st_random s = Some random \<and> 0 < n \<and> n \<le> st_max s
      \<and> n \<le> int (length (rd_bytes random))
      \<and> st_random s' = Some (random\<lparr>rd_bytes := drop (nat n) (rd_bytes random)\<rparr>)
      \<and> i_bytes i = n
      \<and> open_blob env' s' name = Inr (FileHandle (take (nat n) (rd_bytes random)),
           \<lparr>i_name = name, i_bytes = n, i_sha256 = i_sha256 i, i_modified = io_now env,
            i_write_ms = Fin 0, i_read_ms = Fin 0\<rparr>)"
  using assms(1)
proof (cases rule: generate_ok)
  case (1 random)
  have "map_of (st_dir s') name = Some (File (take (nat n) (rd_bytes random)) (io_now env))"
    by (simp add: 1)
  from open_blob_file [OF 1(5-7) assms(2) this] 1 show ?thesis
    using read_hash_sidecar_file [OF assms(2), of "st_dir s'" "hash_path name"]
    by (auto simp: trim_hex_newline)
qed

lemma generate_exact_witness:
  "\<exists>random. st_random small_store = Some random \<and> i_bytes (projr (fst (generate calm checksum_stub small_store ''g'' 4))) = 4
     \<and> open_blob calm (snd (generate calm checksum_stub small_store ''g'' 4)) ''g''
       = Inr (FileHandle (take (nat 4) (rd_bytes random)), \<lparr>i_name = ''g'', i_bytes = 4, i_sha256 = ''04'', i_modified = 7,
          i_write_ms = Fin 0, i_read_ms = Fin 0\<rparr>)"
proof -
  let ?g = "generate calm checksum_stub small_store ''g'' 4"
  have "i_sha256 (projr (fst ?g)) = ''04''" by code_simp
  moreover have "\<not> isl (fst ?g)" by code_simp
  then have "?g = (Inr (projr (fst ?g)), snd ?g)" by (metis prod.collapse sum.collapse(2))
  ultimately show ?thesis using generate_exact [of calm checksum_stub small_store "''g''" 4 _ _ calm] by fastforce
qed

lemma open_blob_absent:
  "validate_name name = None \<Longrightarrow> name \<noteq> ''.'' \<Longrightarrow> stored s name = None \<Longrightarrow>
     open_blob env s name = Inl (Sentinel ErrNotFound)"
  by (simp add: open_blob_def stored_def store_path_def)

text \<open>C32: For a name other than ".", a deletion that the operating system does not hinder succeeds exactly when
  the name is valid and has an entry (a non-empty subdirectory excepted); then the blob and its sidecar are gone, a
  download answers \<open>ErrNotFound\<close>, and every other entry is as before.  The name "." is valid too, but stands for the
  directory itself, which a deletion removes when it is empty (\<open>delete_dot_removes_directory\<close>).\<close>

theorem delete_blob_spec:
  assumes "quiet env" and "st_exists s" and "name \<noteq> ''.''"
  shows "(fst (delete_blob env s name) = None \<longleftrightarrow> validate_name name = None
             \<and> stored s name \<noteq> None \<and> stored s name \<noteq> Some (SubDir False))
      \<and> (fst (delete_blob env s name) = None \<longrightarrow>
           open_blob env (snd (delete_blob env s name)) name = Inl (Sentinel ErrNotFound)
           \<and> stored (snd (delete_blob env s name)) name = None
           \<and> (stored s (hash_path name) \<noteq> Some (SubDir False) \<longrightarrow>
                stored (snd (delete_blob env s name)) (hash_path name) = None))
      \<and> (\<forall>k. k \<noteq> name \<longrightarrow> k \<noteq> hash_path name \<longrightarrow> stored (snd (delete_blob env s name)) k = stored s k)"
proof (cases "validate_name name")
  case None
  note d = delete_blob_quiet [OF assms None]
  have "stored s name \<noteq> Some (SubDir False) \<Longrightarrow>
      open_blob env (snd (delete_blob env s name)) name = Inl (Sentinel ErrNotFound)"
    by (rule open_blob_absent [OF None assms(3)]) (simp add: d(2))
  then show ?thesis by (simp add: None d(1,2))
next
  case (Some e)
  then show ?thesis by (simp add: delete_blob_def)
qed

lemma delete_blob_spec_witness:
  "fst (delete_blob calm (small_store\<lparr>st_dir := [(''a'', File ''x'' 1), (''b'', File ''y'' 2)]\<rparr>) ''a'') = None"
  using delete_blob_spec [of calm "small_store\<lparr>st_dir := [(''a'', File ''x'' 1), (''b'', File ''y'' 2)]\<rparr>" "''a''"]
  by (simp add: small_store_def stored_def validate_name_def blob_name_pattern_def name_char_def in_range_def
      max_blob_name_length_def)

text \<open>C33: The listing names every stored blob once, in the order of the names, leaves out the checksum
  sidecars, the subdirectories and the names that no request could use, and reports for each blob what
  opening it reports.\<close>

theorem list_blobs_spec:
  assumes "quiet env" and "st_exists s" and "unique_names s"
  shows "\<exists>l. list_blobs env s = Inr l \<and> strictly_sorted (map i_name l)
      \<and> set (map i_name l) = {n. (\<exists>data t. stored s n = Some (File data t))
             \<and> validate_name n = None \<and> \<not> has_suffix n ''.sha256''}
      \<and> (\<forall>i\<in>set l. \<exists>data. open_blob env s (i_name i) = Inr (FileHandle data, i))"
proof (rule exI, intro conjI ballI)
  let ?l = "list_entries env (st_dir s) (sort_key fst (st_dir s))"
  have dist: "distinct (map fst (st_dir s))" and dot: "map_of (st_dir s) ''.'' = None"
    using assms(3) by (auto simp: unique_names_def)
  have in_dir: "(n, e) \<in> set (st_dir s) \<longleftrightarrow> map_of (st_dir s) n = Some e" for n e
    using dist by simp
  show "list_blobs env s = Inr ?l" using assms by (simp add: list_blobs_def quiet_def)
  have names: "map i_name ?l = map fst (filter listed (sort_key fst (st_dir s)))"
    by (rule list_entries_names [OF assms(1)])
  have "sorted_wrt (<) (map fst (sort_key fst (st_dir s)))"
    using dist by (simp add: sort_key_fst strict_sorted_iff)
  then show "strictly_sorted (map i_name ?l)"
    unfolding names strictly_sorted_def sorted_wrt_map by (rule sorted_wrt_filter)
  show "set (map i_name ?l) = {n. (\<exists>data t. stored s n = Some (File data t))
             \<and> validate_name n = None \<and> \<not> has_suffix n ''.sha256''}"
  proof (intro set_eqI)
    fix n
    have "n \<in> set (map fst (filter listed (sort_key fst (st_dir s))))
        \<longleftrightarrow> (\<exists>e. (n, e) \<in> set (st_dir s) \<and> listed (n, e))" by force
    also have "\<dots> \<longleftrightarrow> (\<exists>e. stored s n = Some e \<and> listed (n, e))" by (simp only: in_dir stored_def)
    also have "\<dots> \<longleftrightarrow> (\<exists>data t. stored s n = Some (File data t)) \<and> validate_name n = None \<and> \<not> has_suffix n ''.sha256''"
      unfolding listed_iff by auto
    finally show "n \<in> set (map i_name ?l) \<longleftrightarrow> n \<in> {n. (\<exists>data t. stored s n = Some (File data t))
             \<and> validate_name n = None \<and> \<not> has_suffix n ''.sha256''}"
      unfolding names by simp
  qed
  fix i assume "i \<in> set ?l"
  then obtain n data t where i: "(n, File data t) \<in> set (sort_key fst (st_dir s))" "validate_name n = None"
    "i = \<lparr>i_name = n, i_bytes = int (length data), i_sha256 = read_hash_sidecar env (st_dir s) (hash_path n),
      i_modified = t, i_write_ms = Fin 0, i_read_ms = Fin 0\<rparr>"
    by (elim list_entries_info) blast
  then have "map_of (st_dir s) n = Some (File data t)" by (simp add: in_dir)
  moreover from this dot have "n \<noteq> ''.''" by auto
  ultimately show "\<exists>data. open_blob env s (i_name i) = Inr (FileHandle data, i)"
    using open_blob_file [OF i(2) _ assms(2,1)] i(3) by simp
qed

definition two_blobs :: store where
  "two_blobs = small_store\<lparr>st_dir := [(''b.sha256'', File ''00'' 3), (''b'', File ''y'' 2), (''a'', File ''x'' 1), (''old'', SubDir True)]\<rparr>"

lemma list_blobs_spec_witness:
  "\<exists>l. list_blobs calm two_blobs = Inr l \<and> strictly_sorted (map i_name l)"
  using list_blobs_spec [of calm two_blobs]
  by (fastforce simp: two_blobs_def small_store_def unique_names_def)

subsection \<open>The store as a map\<close>

text \<open>
  The abstract store: a map from names to contents, without sidecars.  A store operation that
  nothing hinders is one of three abstract steps: the blob is set, removed, or nothing happens.
\<close>

definition blob_map :: "store \<Rightarrow> string \<Rightarrow> string option" where
  "blob_map s n = (if has_suffix n ''.sha256'' then None
                   else case stored s n of Some (File data _) \<Rightarrow> Some data | _ \<Rightarrow> None)"

datatype abstract_step = SetBlob string string | DropBlob string | Stutter

fun abstract_next :: "abstract_step \<Rightarrow> (string \<Rightarrow> string option) \<Rightarrow> string \<Rightarrow> string option" where
  "abstract_next (SetBlob n data) m = m(n \<mapsto> data)"
| "abstract_next (DropBlob n) m = m(n := None)"
| "abstract_next Stutter m = m"

text \<open>The abstract steps that an operation may be.\<close>

fun store_op_fails :: "(string \<Rightarrow> string) \<Rightarrow> store_op \<Rightarrow> store \<Rightarrow> bool" where
  "store_op_fails digest (Generate env n sz) s = isl (fst (generate env digest s n sz))"
| "store_op_fails digest (Put env n body expected) s = isl (fst (put env digest s n body expected))"
| "store_op_fails digest (Delete env n) s = (fst (delete_blob env s n) \<noteq> None)"

fun abstract_steps :: "store \<Rightarrow> store_op \<Rightarrow> bool \<Rightarrow> abstract_step set" where
  "abstract_steps s (Generate env n sz) failed =
     (if failed then {Stutter} else {SetBlob n (take (nat sz) (rd_bytes (the (st_random s))))})"
| "abstract_steps s (Put env n body expected) failed =
     (if failed then {Stutter, DropBlob n} else {SetBlob n (rd_bytes body)})"
| "abstract_steps s (Delete env n) failed = (if failed then {Stutter} else {DropBlob n})"

lemma blob_map_cong:
  assumes "\<And>k. \<not> has_suffix k ''.sha256'' \<Longrightarrow> stored s' k = stored s k"
  shows "blob_map s' = blob_map s"
  using assms by (auto simp: blob_map_def fun_eq_iff)

lemma blob_map_set:
  assumes "\<not> has_suffix n ''.sha256''"
    and "map_of (st_dir s') = (map_of (st_dir s))(n \<mapsto> File data t, hash_path n \<mapsto> x)"
  shows "blob_map s' = (blob_map s)(n \<mapsto> data)"
  using assms by (auto simp: blob_map_def stored_def fun_eq_iff)

lemma blob_map_drop:
  assumes "\<And>k. \<not> has_suffix k ''.sha256'' \<Longrightarrow> stored s' k = (if k = n then None else stored s k)"
  shows "blob_map s' = (blob_map s)(n := None)"
  using assms by (auto simp: blob_map_def fun_eq_iff)

text \<open>A write that fails without a fault leaves the directory alone.\<close>

lemma write_from_fails_quiet:
  assumes "write_from env digest s name src limit expected exact = (Inl e, s', rest)"
    and "quiet env" and "\<And>b. stored s (hash_path name) \<noteq> Some (SubDir b)"
  shows "map_of (st_dir s') = map_of (st_dir s)"
  using assms(1)
proof (cases rule: write_from_cases)
  case (rejected x)
  with assms(2) show ?thesis by (auto simp: drop_temp_def quiet_def fs_simps fun_eq_iff)
next
  case (renamed ok d3)
  have "\<not> is_subdir (AList.update name x (AList.delete (temp_path env name) (AList.update (temp_path env name) x (st_dir s))))
      (hash_path name)" for x
    using assms(3) by (auto simp: is_subdir_def stored_def fs_simps split: option.splits entry.splits)
  then have "ok" using renamed(4) assms(2) by (auto simp: write_sidecar_def quiet_def)
  with renamed(6) show ?thesis by simp
qed simp

definition refines :: "(string \<Rightarrow> string) \<Rightarrow> store_op \<Rightarrow> store \<Rightarrow> bool" where
  "refines digest op s \<longleftrightarrow> (\<exists>step \<in> abstract_steps s op (store_op_fails digest op s).
      blob_map (store_step digest op s) = abstract_next step (blob_map s))"

lemma refines_generate:
  assumes "op = Generate env n sz"
    and "quiet (op_env op)" and "st_exists s" and "0 < st_max s" and "st_max s < max_int64"
    and "op_name op \<noteq> ''.''" and "\<not> has_suffix (op_name op) ''.sha256''"
    and "\<forall>b. stored s (op_name op) \<noteq> Some (SubDir b) \<and> stored s (hash_path (op_name op)) \<noteq> Some (SubDir b)"
  shows "refines digest op s"
proof -
  note [simp] = refines_def
  note Generate = assms(1)

  obtain r s' where g: "generate env digest s n sz = (r, s')" by fastforce
  show ?thesis
  proof (cases r)
    case (Inr i)
    from g [unfolded Inr] obtain random where "st_random s = Some random"
      "map_of (st_dir s') = (map_of (st_dir s))
        (n \<mapsto> File (take (nat sz) (rd_bytes random)) (io_now env),
         hash_path n \<mapsto> File (sidecar_text digest (take (nat sz) (rd_bytes random))) (io_now env))"
      by (rule generate_ok)
    with g Inr Generate assms(7) show ?thesis by (simp add: blob_map_set)
  next
    case (Inl e)
    have "map_of (st_dir s') = map_of (st_dir s)"
    proof (cases "s' = s")
      case False
      with g Inl obtain random s1 rest e' where
        "write_from env digest s n random sz sz True = (Inl e', s1, rest)" "st_dir s' = st_dir s1"
        by (auto simp: generate_def Let_def split: option.splits if_splits prod.splits)
      with write_from_fails_quiet [OF this(1)] assms(2,8) Generate show ?thesis by simp
    qed simp
    with g Inl Generate blob_map_cong [of s' s] show ?thesis by (simp add: stored_def)
  qed
qed

lemma refines_put:
  assumes "op = Put env n body expected"
    and "quiet (op_env op)" and "st_exists s" and "0 < st_max s" and "st_max s < max_int64"
    and "op_name op \<noteq> ''.''" and "\<not> has_suffix (op_name op) ''.sha256''"
    and "\<forall>b. stored s (op_name op) \<noteq> Some (SubDir b) \<and> stored s (hash_path (op_name op)) \<noteq> Some (SubDir b)"
  shows "refines digest op s"
proof -
  note [simp] = refines_def
  note Put = assms(1)

  obtain r s' where p: "put env digest s n body expected = (r, s')" by fastforce
  from p show ?thesis
  proof (cases rule: put_cases)
    case refused
    with p Put show ?thesis by auto
  next
    case (failed e rest)
    with write_from_fails_quiet [OF failed(1)] assms(2,8) Put have "map_of (st_dir s') = map_of (st_dir s)" by simp
    with p failed Put blob_map_cong [of s' s] show ?thesis by (simp add: stored_def)
  next
    case (accepted i rest)
    with put_ok_dir(1) [OF p [unfolded accepted(2)] assms(4,5)] p Put assms(7) show ?thesis
      by (simp add: blob_map_set)
  next
    case (rejected i s1 rest e)
    note ok = write_from_ok(1) [OF rejected(1)]
    have "n \<noteq> ''.''" "quiet env" "st_exists s1" "validate_name n = None"
      using assms(2,3,6) Put write_from_store(2) [OF rejected(1)] rejected(6) by auto
    with delete_blob_quiet(2) [of env s1 n] ok rejected(3)
    have "stored s' k = (if k = n then None else stored s k)" if "\<not> has_suffix k ''.sha256''" for k
      using that by (auto simp: stored_def)
    from blob_map_drop [OF this] p rejected(2) Put show ?thesis by simp
  qed
qed

lemma refines_delete:
  assumes "op = Delete env n"
    and "quiet (op_env op)" and "st_exists s" and "0 < st_max s" and "st_max s < max_int64"
    and "op_name op \<noteq> ''.''" and "\<not> has_suffix (op_name op) ''.sha256''"
    and "\<forall>b. stored s (op_name op) \<noteq> Some (SubDir b) \<and> stored s (hash_path (op_name op)) \<noteq> Some (SubDir b)"
  shows "refines digest op s"
proof -
  note [simp] = refines_def
  note Delete = assms(1)

  show ?thesis
  proof (cases "validate_name n")
    case None
    note d = delete_blob_quiet [of env s n, OF _ assms(3) _ None]
    have "blob_map (snd (delete_blob env s n)) = (blob_map s)(n := None)"
      using d(2) assms(2,6,8) Delete by (intro blob_map_drop) auto
    moreover have "blob_map s n = None" if "fst (delete_blob env s n) \<noteq> None"
      using that d(1) assms(2,6,8) Delete by (auto simp: blob_map_def split: option.splits entry.splits)
    ultimately show ?thesis using Delete by (auto simp: fun_upd_idem)
  next
    case (Some e)
    with Delete show ?thesis by (simp add: delete_blob_def)
  qed
qed

text \<open>C7: The blob store refines a map from names to contents: with \<open>MAX_BLOB_BYTES\<close> below 2^63-1 (where
  \<open>put_limit_overflow\<close> shows it fail), every operation on a name that is neither a sidecar's nor ".", when no system
  call fails and no subdirectory has the name, is a step of the abstract map, and its result tells which.  A success sets
  the content of exactly that name to the whole body (or to the next random bytes), or removes it; a
  failure changes nothing, but for a rejected upload, which may remove the blob.\<close>

theorem store_refines_map:
  assumes "quiet (op_env op)" and "st_exists s" and "0 < st_max s" and "st_max s < max_int64"
    and "op_name op \<noteq> ''.''" and "\<not> has_suffix (op_name op) ''.sha256''"
    and "\<forall>b. stored s (op_name op) \<noteq> Some (SubDir b) \<and> stored s (hash_path (op_name op)) \<noteq> Some (SubDir b)"
  shows "\<exists>step \<in> abstract_steps s op (store_op_fails digest op s).
      blob_map (store_step digest op s) = abstract_next step (blob_map s)"
  using refines_generate [OF _ assms] refines_put [OF _ assms] refines_delete [OF _ assms]
  unfolding refines_def by (cases op) blast+

lemma store_refines_map_witness:
  "blob_map (store_step checksum_stub (Put calm ''a'' \<lparr>rd_bytes = ''hello'', rd_fails = False\<rparr> 5) small_store)
     = (blob_map small_store)(''a'' \<mapsto> ''hello'')"
proof -
  let ?op = "Put calm ''a'' \<lparr>rd_bytes = ''hello'', rd_fails = False\<rparr> 5"
  have "\<not> store_op_fails checksum_stub ?op small_store" by (simp add: sample_put)
  moreover have "\<exists>step \<in> abstract_steps small_store ?op (store_op_fails checksum_stub ?op small_store).
      blob_map (store_step checksum_stub ?op small_store) = abstract_next step (blob_map small_store)"
    by (rule store_refines_map)
      (simp_all add: small_store_def stored_def has_suffix_def del: store_step.simps)
  ultimately show ?thesis by (simp del: store_step.simps)
qed

section \<open>Observations\<close>

text \<open>
  With \<open>MAX_BLOB_BYTES\<close> at the largest 64-bit value and no announced length, \<open>limit + 1\<close>
  overflows to a negative number, \<open>io.LimitReader\<close> delivers nothing, and the upload reports
  success for an empty blob.
\<close>

lemma put_limit_overflow:
  "map_sum (\<lambda>_. ()) i_bytes (fst (put calm checksum_stub (small_store\<lparr>st_max := max_int64\<rparr>) ''a''
     \<lparr>rd_bytes = ''hello'', rd_fails = False\<rparr> 0)) = Inr 0"
  by code_simp

text \<open>
  An upload whose body is shorter than its \<open>Content-Length\<close> is rejected only after it has
  replaced the blob of that name: the earlier blob is lost.
\<close>

lemma length_mismatch_destroys:
  "put calm checksum_stub (small_store\<lparr>st_dir := [(''a'', File ''before'' 1)]\<rparr>) ''a'' \<lparr>rd_bytes = ''hi'', rd_fails = False\<rparr> 5
     = (Inl (Sentinel ErrLengthMismatch), small_store)"
  by code_simp

text \<open>
  The name of one dot is accepted.  Deleting it on an empty store removes the blob directory,
  and every later upload fails until the process is restarted.
\<close>

lemma delete_dot_removes_directory:
  "delete_blob calm small_store ''.'' = (None, small_store\<lparr>st_exists := False\<rparr>)"
  by code_simp

lemma no_directory_no_upload:
  assumes "\<not> st_exists s"
  shows "isl (fst (put env digest s name body expected))"
  using assms by (simp add: put_def write_from_def Let_def split: option.splits)

text \<open>
  A blob named like the sidecar of another one shares its file: the upload of \<open>a\<close> replaces the
  blob \<open>a.sha256\<close>.
\<close>

lemma sidecar_replaces_blob:
  assumes "put env digest s name body expected = (Inr i, s')" and "0 < st_max s" and "st_max s < max_int64"
  shows "stored s' (hash_path name) = Some (File (sidecar_text digest (rd_bytes body)) (io_now env))"
  using put_ok_dir(1) [OF assms] by (simp add: stored_def)

text \<open>
  The name of a temporary file is a valid blob name, so a listing made during an upload shows
  the unfinished file.
\<close>

lemma temp_file_listed: "listed (temp_path calm ''a'', File data t)"
proof -
  have "validate_name (temp_path calm ''a'') = None" "\<not> has_suffix (temp_path calm ''a'') ''.sha256''"
    by code_simp+
  then show ?thesis by (simp add: listed_def)
qed

end
