(* ===== verification/Http.thy ===== *)
theory Http
  imports Prelude "HOL-Library.Word"
begin

text \<open>
  The part of \<open>net/http\<close> and \<open>net/url\<close> that the handlers use: requests, header and query
  lookup, percent-decoding, path cleaning, and the matching of \<open>http.ServeMux\<close> (Go 1.22 and
  later) for patterns of literal segments, single wildcards and trailing slashes.

  A request carries the path of its target as it was sent (\<open>q_target\<close>); \<open>url_path\<close> is
  \<open>r.URL.Path\<close>, \<open>None\<close> when the server rejects the target.  The mux works on the escaped
  path, segment by segment, and handlers look at the decoded path; the lemmas of this theory
  show that the two views agree.
\<close>

section \<open>Requests\<close>

record conn_tls =
  cs_version :: "16 word"
  cs_cipher :: "16 word"
  cs_server_name :: string
  cs_protocol :: string

text \<open>
  \<open>q_body\<close> is what the body reader delivers and \<open>q_body_fails\<close> whether it then fails instead
  of ending.  Header names are in canonical form.
\<close>

record request =
  q_method :: string
  q_target :: string
  q_query :: string
  q_host :: string
  q_remote :: string
  q_headers :: "(string \<times> string) list"
  q_tls :: "conn_tls option"
  q_body :: string
  q_body_fails :: bool
  q_length :: int
  q_meta :: "nat option"

definition header_get :: "request \<Rightarrow> string \<Rightarrow> string" where
  "header_get r k = (case map_of (q_headers r) k of None \<Rightarrow> [] | Some v \<Rightarrow> v)"

section \<open>Percent encoding\<close>

definition unhex :: "char \<Rightarrow> nat option" where
  "unhex c = (if in_range c 48 57 then Some (of_char c - 48)
              else if in_range c 65 70 then Some (of_char c - 55)
              else if in_range c 97 102 then Some (of_char c - 87) else None)"

text \<open>\<open>url.unescape\<close>; the flag is set for query components, where a plus sign is a blank.\<close>

fun unescape :: "bool \<Rightarrow> string \<Rightarrow> string option" where
  "unescape q [] = Some []"
| "unescape q (c # cs) =
     (if c = CHR ''%'' then
        (case cs of
           a # b # r \<Rightarrow>
             (case (unhex a, unhex b) of
                (Some x, Some y) \<Rightarrow> map_option (Cons (char_of (16 * x + y))) (unescape q r)
              | _ \<Rightarrow> None)
         | _ \<Rightarrow> None)
      else map_option (Cons (if q \<and> c = CHR ''+'' then CHR 0x20 else c)) (unescape q cs))"

definition alnum :: "char \<Rightarrow> bool" where
  "alnum c \<longleftrightarrow> in_range c 48 57 \<or> in_range c 65 90 \<or> in_range c 97 122"

definition should_escape :: "char \<Rightarrow> bool" where
  "should_escape c \<longleftrightarrow> \<not> (alnum c \<or> c \<in> set ''-_.~$&+,/:;=@'')"

definition valid_encoded :: "string \<Rightarrow> bool" where
  "valid_encoded s \<longleftrightarrow> list_all (\<lambda>c. c \<in> set ''!$&()*+,;=:@[]%'' \<or> c = CHR 0x27 \<or> \<not> should_escape c) s"

definition upper_hex :: "nat \<Rightarrow> char" where
  "upper_hex n = (if n < 10 then char_of (48 + n) else char_of (55 + n))"

definition escape_char :: "char \<Rightarrow> string" where
  "escape_char c = (if should_escape c then [CHR ''%'', upper_hex (of_char c div 16), upper_hex (of_char c mod 16)] else [c])"

definition escape :: "string \<Rightarrow> string" where
  "escape s = concat (map escape_char s)"

definition url_path :: "request \<Rightarrow> string option" where
  "url_path r = unescape False (q_target r)"

definition escaped_path :: "string \<Rightarrow> string" where
  "escaped_path raw = (if valid_encoded raw then raw else case unescape False raw of None \<Rightarrow> raw | Some p \<Rightarrow> escape p)"

section \<open>Queries\<close>

definition cut :: "char \<Rightarrow> string \<Rightarrow> string \<times> string" where
  "cut sep s = (takeWhile (\<lambda>c. c \<noteq> sep) s, drop 1 (dropWhile (\<lambda>c. c \<noteq> sep) s))"

text \<open>\<open>url.ParseQuery\<close>: pairs that do not decode, or hold a semicolon, are skipped.\<close>

fun parse_pairs :: "string list \<Rightarrow> (string \<times> string) list" where
  "parse_pairs [] = []"
| "parse_pairs (p # ps) =
     (if contains p '';'' \<or> p = [] then parse_pairs ps
      else let (k, v) = cut CHR ''='' p
           in case (unescape True k, unescape True v) of
                (Some k', Some v') \<Rightarrow> (k', v') # parse_pairs ps
              | _ \<Rightarrow> parse_pairs ps)"

definition query_get :: "request \<Rightarrow> string \<Rightarrow> string" where
  "query_get r k = (case map_of (parse_pairs (split_on CHR ''&'' (q_query r))) k of None \<Rightarrow> [] | Some v \<Rightarrow> v)"

section \<open>Paths\<close>

text \<open>\<open>path.Clean\<close> on a rooted path, by segments, and \<open>cleanPath\<close> of the mux.\<close>

fun clean_segments :: "string list \<Rightarrow> string list \<Rightarrow> string list" where
  "clean_segments done [] = done"
| "clean_segments done (s # ss) =
     (if s = [] \<or> s = ''.'' then clean_segments done ss
      else if s = ''..'' then clean_segments (butlast done) ss
      else clean_segments (done @ [s]) ss)"

definition clean_path :: "string \<Rightarrow> string" where
  "clean_path p =
     (if p = [] then ''/''
      else let q = (if hd p = CHR ''/'' then p else CHR ''/'' # p);
               np = CHR ''/'' # join_with CHR ''/'' (clean_segments [] (split_on CHR ''/'' (tl q)))
           in if last q = CHR ''/'' \<and> np \<noteq> ''/'' then np @ ''/'' else np)"

text \<open>
  The segments of a rooted path as the mux sees them: decoded, and a slash for the empty
  segment after a trailing slash.
\<close>

definition decode_segment :: "string \<Rightarrow> string" where
  "decode_segment s = (case unescape False s of None \<Rightarrow> s | Some t \<Rightarrow> t)"

definition path_segments :: "string \<Rightarrow> string list" where
  "path_segments p =
     (let ss = split_on CHR ''/'' (tl p)
      in map decode_segment (butlast ss) @ [if last ss = [] then ''/'' else decode_segment (last ss)])"

section \<open>Patterns\<close>

datatype pat_seg = Lit string | Wild | Multi

fun match_pattern :: "pat_seg list \<Rightarrow> string list \<Rightarrow> string list option" where
  "match_pattern [] [] = Some []"
| "match_pattern (Lit l # ps) (s # ss) = (if l = s then match_pattern ps ss else None)"
| "match_pattern (Wild # ps) (s # ss) = (if s = ''/'' then None else map_option (Cons s) (match_pattern ps ss))"
| "match_pattern [Multi] (s # ss) = Some []"
| "match_pattern _ _ = None"

text \<open>
  A route is a method, a pattern and a handler.  The patterns of a mux do not overlap in more
  than one way, so the first route that matches is the one the mux selects.  A HEAD request
  also matches GET patterns.
\<close>

type_synonym 'h routes = "(string \<times> pat_seg list \<times> 'h) list"

fun match_method :: "'h routes \<Rightarrow> string \<Rightarrow> string list \<Rightarrow> (pat_seg list \<times> 'h \<times> string list) option" where
  "match_method [] m ss = None"
| "match_method ((m', p, h) # rs) m ss =
     (if m' = m then (case match_pattern p ss of Some vs \<Rightarrow> Some (p, h, vs) | None \<Rightarrow> match_method rs m ss)
      else match_method rs m ss)"

definition match_route :: "'h routes \<Rightarrow> string \<Rightarrow> string \<Rightarrow> (pat_seg list \<times> 'h \<times> string list) option" where
  "match_route rs m path =
     (case match_method rs m (path_segments path) of
        Some x \<Rightarrow> Some x
      | None \<Rightarrow> if m = ''HEAD'' then match_method rs ''GET'' (path_segments path) else None)"

definition exact_match :: "(pat_seg list \<times> 'h \<times> string list) option \<Rightarrow> string \<Rightarrow> bool" where
  "exact_match n path =
     (case n of None \<Rightarrow> False
      | Some (p, _, _) \<Rightarrow> if path \<noteq> [] \<and> last path \<noteq> CHR ''/'' then True
                        else length p = length (filter (\<lambda>c. c = CHR ''/'') path))"

datatype 'h dispatch =
    Handle 'h "string list"
  | Redirect string
  | MethodNotAllowed "string list"
  | NoRoute
  | BadTarget

text \<open>
  The methods, in alphabetical order, with which a pattern matches the path, or the path with
  a trailing slash.
\<close>

definition methods_of :: "'h routes \<Rightarrow> string \<Rightarrow> string list" where
  "methods_of rs path = map fst (filter (\<lambda>(m, p, h). match_pattern p (path_segments path) \<noteq> None) rs)"

definition allowed_methods :: "'h routes \<Rightarrow> string \<Rightarrow> string list" where
  "allowed_methods rs path =
     (let ms = methods_of rs path @ (if has_suffix path ''/'' then [] else methods_of rs (path @ ''/''))
      in sort (remdups (if ''GET'' \<in> set ms then ''HEAD'' # ms else ms)))"

text \<open>\<open>ServeMux.findHandler\<close>.\<close>

definition slash_redirect :: "'h routes \<Rightarrow> string \<Rightarrow> string \<Rightarrow> bool" where
  "slash_redirect rs m path \<longleftrightarrow>
     \<not> exact_match (match_route rs m path) path \<and> \<not> has_suffix path ''/''
     \<and> exact_match (match_route rs m (path @ ''/'')) (path @ ''/'')"

definition unmatched :: "'h routes \<Rightarrow> string \<Rightarrow> 'h dispatch" where
  "unmatched rs path = (if allowed_methods rs path \<noteq> [] then MethodNotAllowed (allowed_methods rs path) else NoRoute)"

definition find_handler :: "'h routes \<Rightarrow> request \<Rightarrow> 'h dispatch" where
  "find_handler rs r =
     (if q_target r = ''*'' then BadTarget
      else case url_path r of
        None \<Rightarrow> BadTarget
      | Some decoded \<Rightarrow>
          let escaped = escaped_path (q_target r)
          in if q_method r = ''CONNECT'' then unmatched rs escaped
             else
               let path = clean_path escaped
               in if slash_redirect rs (q_method r) path then Redirect (clean_path decoded @ ''/'')
                  else if path \<noteq> escaped then Redirect path
                  else case match_route rs (q_method r) path of
                         Some (p, h, vs) \<Rightarrow> Handle h vs
                       | None \<Rightarrow> unmatched rs path)"

section \<open>Lemmas\<close>

lemma unhex_slash [simp]: "unhex CHR ''/'' = None"
  by (simp add: unhex_def in_range_def)

lemma unescape_slash:
  "unescape False (a @ CHR ''/'' # b) =
     (case (unescape False a, unescape False b) of
        (Some x, Some y) \<Rightarrow> Some (x @ CHR ''/'' # y) | _ \<Rightarrow> None)"
proof (induction "False" a rule: unescape.induct)
  case 1
  show ?case by (cases "unescape False b") auto
next
  case (2 c cs)
  show ?case
  proof (cases "c = CHR ''%''")
    case False
    with 2(2) show ?thesis by (auto split: option.splits)
  next
    case True
    show ?thesis
    proof (cases cs)
      case Nil
      with True show ?thesis by (auto split: list.splits)
    next
      case (Cons d ds)
      show ?thesis
      proof (cases ds)
        case Nil
        with True Cons show ?thesis by (auto split: option.splits)
      next
        case cons: (Cons e es)
        from 2(1) [OF True Cons cons] True Cons cons show ?thesis
          by (cases "unhex d"; cases "unhex e") (auto split: option.splits)
      qed
    qed
  qed
qed

text \<open>Decoding a path decodes its segments.\<close>

lemma unescape_join:
  "unescape False (join_with CHR ''/'' ws) = Some d \<Longrightarrow> d = join_with CHR ''/'' (map decode_segment ws)"
proof (induction "CHR ''/''" ws arbitrary: d rule: join_with.induct)
  case (3 w v vs)
  then obtain x y where "unescape False w = Some x" "unescape False (join_with CHR ''/'' (v # vs)) = Some y"
    "d = x @ CHR ''/'' # y"
    by (auto simp: unescape_slash split: option.splits)
  with 3 show ?case by (simp add: decode_segment_def)
qed (auto simp: decode_segment_def)

lemma butlast_last_map:
  "xs \<noteq> [] \<Longrightarrow> map f (butlast xs) @ [f (last xs)] = map f xs"
  by (metis append_butlast_last_id list.simps(8,9) map_append)

text \<open>
  The decoded path of a path without trailing slash is the join of the segments that the mux
  matches on.
\<close>

lemma decoded_path:
  assumes "unescape False (CHR ''/'' # p) = Some d" and "last (split_on CHR ''/'' p) \<noteq> []"
  shows "d = CHR ''/'' # join_with CHR ''/'' (path_segments (CHR ''/'' # p))"
proof -
  from assms(1) obtain d' where d': "unescape False p = Some d'" "d = CHR ''/'' # d'" by auto
  then have "d' = join_with CHR ''/'' (map decode_segment (split_on CHR ''/'' p))"
    by (intro unescape_join) (simp add: join_split)
  with d'(2) assms(2) show ?thesis
    by (simp add: path_segments_def Let_def butlast_last_map)
qed

lemma path_segments_last:
  "last (path_segments (CHR ''/'' # p)) \<noteq> ''/'' \<Longrightarrow> last (split_on CHR ''/'' p) \<noteq> []"
  by (auto simp: path_segments_def Let_def)

lemma unhex_upper_hex: "n < 16 \<Longrightarrow> unhex (upper_hex n) = Some n"
  by (auto simp: unhex_def upper_hex_def in_range_def)

lemma unescape_escape: "unescape False (escape s) = Some s"
proof (induction s)
  case (Cons c s)
  have "should_escape CHR ''%''" by code_simp
  moreover have "of_char c div 16 < (16 :: nat)"
    by (rule less_mult_imp_div_less) simp
  ultimately show ?case
    using Cons by (auto simp: escape_def escape_char_def unhex_upper_hex)
qed (simp add: escape_def)

lemma unescape_escaped_path: "unescape False raw = Some d \<Longrightarrow> unescape False (escaped_path raw) = Some d"
  by (simp add: escaped_path_def unescape_escape)

lemma clean_path_slash: "\<exists>p. clean_path q = CHR ''/'' # p"
  by (auto simp: clean_path_def Let_def)

text \<open>What a handler that a request reaches knows of the decoded path.\<close>

lemma find_handler_Handle:
  assumes "find_handler rs r = Handle h vs"
  obtains p pat d where "url_path r = Some d" and "unescape False (CHR ''/'' # p) = Some d"
    and "match_route rs (q_method r) (CHR ''/'' # p) = Some (pat, h, vs)"
proof -
  from assms obtain d pat where d: "url_path r = Some d" "clean_path (escaped_path (q_target r)) = escaped_path (q_target r)"
    "match_route rs (q_method r) (escaped_path (q_target r)) = Some (pat, h, vs)"
    by (auto simp: find_handler_def unmatched_def Let_def split: if_splits option.splits prod.splits)
  moreover obtain p where "escaped_path (q_target r) = CHR ''/'' # p" using clean_path_slash d(2) by metis
  ultimately show thesis
    using that unescape_escaped_path by (metis url_path_def)
qed

lemma match_method_sound:
  "match_method rs m ss = Some (p, h, vs) \<Longrightarrow> (m, p, h) \<in> set rs \<and> match_pattern p ss = Some vs"
  by (induction rs m ss rule: match_method.induct) (auto split: if_splits option.splits)

lemma match_route_sound:
  assumes "match_route rs m path = Some (p, h, vs)"
  shows "((m, p, h) \<in> set rs \<or> m = ''HEAD'' \<and> (''GET'', p, h) \<in> set rs) \<and> match_pattern p (path_segments path) = Some vs"
  using assms by (auto simp: match_route_def dest: match_method_sound split: option.splits if_splits)

end
