(* ===== verification/Timing.thy ===== *)
theory Timing
  imports Float64 "HOL-Library.Multiset"
begin

text \<open>
  Package \<open>internal/timing\<close>: the phases of a curl transfer (\<open>phases.go\<close>) and the
  percentile summary (\<open>stats.go\<close>).  All arithmetic is binary64.  The abstract
  specification of the phases is integer arithmetic on microseconds; \<open>phases_refine\<close>
  shows that the floating-point code computes it exactly.
\<close>

section \<open>Phases (phases.go)\<close>

record curl_times =
  t_namelookup :: f64
  t_connect :: f64
  t_appconnect :: f64
  t_pretransfer :: f64
  t_starttransfer :: f64
  t_redirect :: f64
  t_total :: f64

record phases =
  dns_ms :: f64
  tcp_connect_ms :: f64
  tls_handshake_ms :: f64
  redirect_ms :: f64
  ttfb_ms :: f64
  transfer_ms :: f64
  client_total_ms :: f64

definition seconds_to_ms :: "f64 \<Rightarrow> f64" where
  "seconds_to_ms seconds =
     (if fle seconds (Fin 0) then Fin 0
      else fdiv (math_round (fmul (fmul seconds (Fin 1000)) (Fin 1000))) (Fin 1000))"

definition delta :: "f64 \<Rightarrow> f64 \<Rightarrow> f64" where
  "delta stop start =
     (let diff = fsub stop start
      in if flt diff (Fin 0) then Fin 0
         else fdiv (math_round (fmul diff (Fin 1000))) (Fin 1000))"

definition tls_delta :: "f64 \<Rightarrow> f64 \<Rightarrow> f64" where
  "tls_delta appconnect connect =
     (if fle appconnect (Fin 0) then Fin 0 else delta appconnect connect)"

definition phases_from_curl :: "curl_times \<Rightarrow> phases" where
  "phases_from_curl ct =
     (let namelookup = seconds_to_ms (t_namelookup ct);
          connect = seconds_to_ms (t_connect ct);
          appconnect = seconds_to_ms (t_appconnect ct);
          pretransfer = seconds_to_ms (t_pretransfer ct);
          starttransfer = seconds_to_ms (t_starttransfer ct);
          ttl = seconds_to_ms (t_total ct)
      in \<lparr>dns_ms = namelookup,
          tcp_connect_ms = delta connect namelookup,
          tls_handshake_ms = tls_delta appconnect connect,
          redirect_ms = seconds_to_ms (t_redirect ct),
          ttfb_ms = delta starttransfer pretransfer,
          transfer_ms = delta ttl starttransfer,
          client_total_ms = ttl\<rparr>)"

section \<open>Summary (stats.go)\<close>

record summary =
  s_count :: int
  s_min :: f64
  s_max :: f64
  s_mean :: f64
  s_p50 :: f64
  s_p90 :: f64
  s_p99 :: f64

text \<open>Indexing a slice: \<open>None\<close> is the run-time panic.\<close>

definition slice_at :: "'a list \<Rightarrow> int \<Rightarrow> 'a option" where
  "slice_at xs i = (if 0 \<le> i \<and> i < int (length xs) then Some (xs ! nat i) else None)"

definition percentile :: "f64 list \<Rightarrow> f64 \<Rightarrow> f64 option" where
  "percentile srt p =
     (if srt = [] then Some (Fin 0)
      else if length srt = 1 then slice_at srt 0
      else let n = int (length srt);
               rank = fmul (fdiv p (Fin 100)) (of_int64 (n - 1));
               lower = trunc64 rank;
               upper = lower + 1
           in if n \<le> upper then slice_at srt (n - 1)
              else let weight = fsub rank (of_int64 lower)
                   in case (slice_at srt lower, slice_at srt upper) of
                        (Some lo, Some hi) \<Rightarrow>
                          Some (fadd (fmul lo (fsub (Fin 1) weight)) (fmul hi weight))
                      | _ \<Rightarrow> None)"

text \<open>The filtering loop of \<open>Summarize\<close>, with its two accumulators.\<close>

fun collect :: "f64 list \<Rightarrow> f64 list \<Rightarrow> f64 \<Rightarrow> f64 list \<times> f64" where
  "collect [] filtered acc = (filtered, acc)"
| "collect (v # vs) filtered acc =
     (if fle v (Fin 0) then collect vs filtered acc
      else collect vs (filtered @ [v]) (fadd acc v))"

definition summarize :: "f64 list \<Rightarrow> summary option" where
  "summarize vs =
     (let (filtered, acc) = collect vs [] (Fin 0); n = int (length filtered)
      in if filtered = [] then
           Some \<lparr>s_count = 0, s_min = Fin 0, s_max = Fin 0, s_mean = Fin 0,
                 s_p50 = Fin 0, s_p90 = Fin 0, s_p99 = Fin 0\<rparr>
         else let srt = sort filtered
              in case (slice_at srt 0, slice_at srt (n - 1), percentile srt (Fin 50),
                       percentile srt (Fin 90), percentile srt (Fin 99)) of
                   (Some lo, Some hi, Some a, Some b, Some c) \<Rightarrow>
                     Some \<lparr>s_count = n, s_min = lo, s_max = hi, s_mean = fdiv acc (of_int64 n),
                           s_p50 = a, s_p90 = b, s_p99 = c\<rparr>
                 | _ \<Rightarrow> None)"

section \<open>The phases on microsecond inputs\<close>

text \<open>
  curl prints its times in seconds with six decimals, and decoding such a decimal gives the
  nearest binary64: \<open>usec k\<close> for \<open>k\<close> microseconds.  \<open>ms k\<close> is the nearest binary64 to
  \<open>k\<close> microseconds in milliseconds.
\<close>

definition usec :: "int \<Rightarrow> f64" where
  "usec k = round64 (of_int k / 10 ^ 6)"

definition ms :: "int \<Rightarrow> f64" where
  "ms k = round64 (of_int k / 1000)"

record curl_usec =
  u_namelookup :: int
  u_connect :: int
  u_appconnect :: int
  u_pretransfer :: int
  u_starttransfer :: int
  u_redirect :: int
  u_total :: int

definition curl_times_of :: "curl_usec \<Rightarrow> curl_times" where
  "curl_times_of u =
     \<lparr>t_namelookup = usec (u_namelookup u), t_connect = usec (u_connect u),
      t_appconnect = usec (u_appconnect u), t_pretransfer = usec (u_pretransfer u),
      t_starttransfer = usec (u_starttransfer u), t_redirect = usec (u_redirect u),
      t_total = usec (u_total u)\<rparr>"

text \<open>Up to \<open>2 ^ 45\<close> microseconds, over a year.\<close>

definition in_year :: "int \<Rightarrow> bool" where
  "in_year k \<longleftrightarrow> 0 \<le> k \<and> k \<le> 2 ^ 45"

definition usec_ok :: "curl_usec \<Rightarrow> bool" where
  "usec_ok u \<longleftrightarrow> in_year (u_namelookup u) \<and> in_year (u_connect u) \<and> in_year (u_appconnect u)
     \<and> in_year (u_pretransfer u) \<and> in_year (u_starttransfer u) \<and> in_year (u_redirect u)
     \<and> in_year (u_total u)"

text \<open>The specification: differences of integers, cut off at zero.\<close>

definition phases_spec :: "curl_usec \<Rightarrow> phases" where
  "phases_spec u =
     \<lparr>dns_ms = ms (u_namelookup u),
      tcp_connect_ms = ms (max 0 (u_connect u - u_namelookup u)),
      tls_handshake_ms =
        ms (if u_appconnect u = 0 then 0 else max 0 (u_appconnect u - u_connect u)),
      redirect_ms = ms (u_redirect u),
      ttfb_ms = ms (max 0 (u_starttransfer u - u_pretransfer u)),
      transfer_ms = ms (max 0 (u_total u - u_starttransfer u)),
      client_total_ms = ms (u_total u)\<rparr>"

lemma ms_zero [simp]: "ms 0 = Fin 0"
  by (simp add: ms_def)

lemma usec_zero [simp]: "usec 0 = Fin 0"
  by (simp add: usec_def)

lemma seconds_to_ms_usec:
  assumes "in_year k"
  shows "seconds_to_ms (usec k) = ms k"
proof (cases "k = 0")
  case False
  with assms obtain s a b where "round64 (of_int k / 10 ^ 6) = Fin s" and "0 < s"
    and "round64 (s * 1000) = Fin a" and "round64 (a * 1000) = Fin b" and "round_away b = k"
    by (rule_tac binary64.grid_seconds [of k]) (auto simp: in_year_def)
  then show ?thesis by (simp add: usec_def ms_def seconds_to_ms_def)
qed (simp add: seconds_to_ms_def)

lemma ms_pos:
  assumes "0 < k" and "in_year k"
  obtains x where "ms k = Fin x" and "0 < x"
  using assms by (rule_tac binary64.grid_delta [of 0 k]) (auto simp: in_year_def ms_def)

lemma ms_finite:
  assumes "in_year k"
  obtains x where "ms k = Fin x"
proof (cases "k = 0")
  case False
  with assms have "0 < k" by (simp add: in_year_def)
  then show thesis using assms that by (rule ms_pos)
qed (use that in simp)

lemma delta_ms:
  assumes "in_year i" and "in_year j"
  shows "delta (ms i) (ms j) = ms (max 0 (i - j))"
proof -
  consider "j < i" | "i = j" | "i < j" by linarith
  then show ?thesis
  proof cases
    case 1
    then obtain x y d m where "ms i = Fin x" "ms j = Fin y" "round64 (x - y) = Fin d" "0 < d"
      "round64 (d * 1000) = Fin m" "round_away m = i - j"
      using assms by (rule_tac binary64.grid_delta [of j i]) (auto simp: in_year_def ms_def)
    with 1 show ?thesis by (simp add: delta_def fsub_def ms_def max_def Let_def)
  next
    case 2
    obtain x where "ms i = Fin x" using assms(1) by (rule ms_finite)
    with 2 show ?thesis by (simp add: delta_def fsub_def Let_def)
  next
    case 3
    then obtain x y d where "ms j = Fin x" "ms i = Fin y" "round64 (x - y) = Fin d" "0 < d"
      using assms by (rule_tac binary64.grid_delta [of i j]) (auto simp: in_year_def ms_def)
    with 3 show ?thesis
      using round64_minus [of "x - y"] by (simp add: delta_def fsub_def Let_def max_def)
  qed
qed

lemma tls_delta_ms:
  assumes "in_year a" and "in_year c"
  shows "tls_delta (ms a) (ms c) = ms (if a = 0 then 0 else max 0 (a - c))"
proof (cases "a = 0")
  case False
  with assms(1) obtain x where "ms a = Fin x" "0 < x"
    by (rule_tac ms_pos [of a]) (auto simp: in_year_def)
  with False show ?thesis using delta_ms [OF assms] by (simp add: tls_delta_def)
qed (simp add: tls_delta_def)

lemma phases_from_curl_usec:
  "usec_ok u \<Longrightarrow> phases_from_curl (curl_times_of u) = phases_spec u"
  by (simp add: phases_from_curl_def curl_times_of_def phases_spec_def usec_ok_def
      seconds_to_ms_usec delta_ms tls_delta_ms Let_def)

section \<open>No phase is negative\<close>

definition not_neg :: "f64 \<Rightarrow> bool" where
  "not_neg x \<longleftrightarrow> \<not> flt x (Fin 0)"

lemma not_neg_round64: "0 \<le> q \<Longrightarrow> not_neg (round64 q)"
  using round64_sign [of q] by (cases "round64 q") (auto simp: not_neg_def)

lemma not_neg_scale: "not_neg x \<Longrightarrow> 0 < c \<Longrightarrow> not_neg (fmul x (Fin c))"
  by (cases x) (auto simp: not_neg_round64 inf_of_sign_def, auto simp: not_neg_def not_neg_round64
      intro!: not_neg_round64 [unfolded not_neg_def])

lemma not_neg_div: "not_neg x \<Longrightarrow> 0 < c \<Longrightarrow> not_neg (fdiv x (Fin c))"
  by (cases x) (auto simp: not_neg_def intro!: not_neg_round64 [unfolded not_neg_def])

lemma not_neg_math_round: "not_neg x \<Longrightarrow> not_neg (math_round x)"
  by (cases x) (auto simp: not_neg_def not_less round_away_nonneg)

lemma not_neg_zero [simp]: "not_neg (Fin 0)"
  by (simp add: not_neg_def)

lemma not_neg_if_not_fle: "\<not> fle x (Fin 0) \<Longrightarrow> not_neg x"
  by (cases x) (auto simp: not_neg_def)

lemmas not_neg_ops = not_neg_scale not_neg_div not_neg_math_round not_neg_if_not_fle

lemma not_neg_seconds_to_ms: "not_neg (seconds_to_ms s)"
  by (simp add: seconds_to_ms_def not_neg_ops)

lemma not_neg_delta: "not_neg (delta a b)"
  by (simp add: delta_def Let_def not_neg_ops not_neg_def [of "fsub a b"])

lemma not_neg_tls_delta: "not_neg (tls_delta a b)"
  by (simp add: tls_delta_def not_neg_delta)

section \<open>The summary\<close>

definition positives :: "f64 list \<Rightarrow> f64 list" where
  "positives vs = filter (\<lambda>v. \<not> fle v (Fin 0)) vs"

lemma collect_eq: "collect vs f a = (f @ positives vs, foldl fadd a (positives vs))"
  by (induction vs arbitrary: f a) (simp_all add: positives_def)

lemma slice_at_in: "0 \<le> i \<Longrightarrow> i < int (length xs) \<Longrightarrow> slice_at xs i = Some (xs ! nat i)"
  by (simp add: slice_at_def)

text \<open>
  For a percentage between 1 and 100 and a slice of at most \<open>2 ^ 40\<close> values the rank is
  finite and not negative, so no index is out of range.
\<close>

lemma rank_finite:
  assumes "1 \<le> p" and "p \<le> 100" and "2 \<le> n" and "n \<le> 2 ^ 40"
  obtains q where "fmul (fdiv (Fin p) (Fin 100)) (of_int64 (n - 1)) = Fin q" and "0 \<le> q"
proof -
  let ?n = "rat_of_int (n - 1)"
  have n: "1 \<le> ?n" "?n \<le> 2 ^ 40"
    using assms(3,4) of_int_le_iff [of 1 "n - 1"] of_int_le_iff [of "n - 1" "2 ^ 40"] by simp_all
  obtain r where r: "round64 (p / 100) = Fin r"
    "r \<le> p / 100 + p / 100 / 2 ^ 53" "p / 100 - p / 100 / 2 ^ 53 \<le> r"
    by (rule binary64.rnd_pos [of "p / 100"]) (use assms(1,2) in simp_all)
  have i: "of_int64 (n - 1) = Fin ?n"
    using is_f64_of_int [of "n - 1"] assms(3,4) by (simp add: of_int64_def is_f64_def)
  have r2: "1 / 200 \<le> r" "r \<le> 2" using r assms(1,2) by simp_all
  have lo: "1 / 200 * 1 \<le> r * ?n" using r2 n by (intro mult_mono) auto
  have hi: "r * ?n \<le> 2 * 2 ^ 40" using r2 n by (intro mult_mono) auto
  obtain q where q: "round64 (r * ?n) = Fin q" "r * ?n - r * ?n / 2 ^ 53 \<le> q"
    by (rule binary64.rnd_pos [of "r * ?n"]) (use lo hi in simp_all)
  have "0 \<le> r * ?n - r * ?n / 2 ^ 53" using lo by simp
  with q have "0 \<le> q" by linarith
  then show thesis using that q(1) by (simp add: r(1) i)
qed

lemma percentile_defined:
  assumes "1 \<le> p" and "p \<le> 100" and "length xs \<le> 2 ^ 40"
  shows "\<exists>v. percentile xs (Fin p) = Some v"
proof -
  consider "xs = []" | "length xs = 1" | "2 \<le> length xs" by (cases xs; cases "tl xs") auto
  then show ?thesis
  proof cases
    case 3
    then obtain q where q: "fmul (fdiv (Fin p) (Fin 100)) (of_int64 (int (length xs) - 1)) = Fin q"
      "0 \<le> q" using assms by (rule_tac rank_finite [of p "int (length xs)"]) auto
    with 3 show ?thesis
      by (auto simp: percentile_def Let_def slice_at_in split: option.splits)
  qed (auto simp: percentile_def slice_at_def)
qed

lemma summarize_cases:
  assumes "length vs \<le> 2 ^ 40" and "positives vs \<noteq> []"
  obtains a b c where
    "percentile (sort (positives vs)) (Fin 50) = Some a"
    "percentile (sort (positives vs)) (Fin 90) = Some b"
    "percentile (sort (positives vs)) (Fin 99) = Some c"
    "summarize vs = Some \<lparr>s_count = int (length (positives vs)),
       s_min = sort (positives vs) ! 0, s_max = sort (positives vs) ! (length (positives vs) - 1),
       s_mean = fdiv (foldl fadd (Fin 0) (positives vs)) (of_int64 (int (length (positives vs)))),
       s_p50 = a, s_p90 = b, s_p99 = c\<rparr>"
proof -
  let ?s = "sort (positives vs)"
  have "length (positives vs) \<le> length vs" by (simp add: positives_def)
  with assms(1) have l: "length ?s \<le> 2 ^ 40" by simp
  obtain a b c where p: "percentile ?s (Fin 50) = Some a" "percentile ?s (Fin 90) = Some b"
    "percentile ?s (Fin 99) = Some c"
    using percentile_defined [of 50 ?s] percentile_defined [of 90 ?s] percentile_defined [of 99 ?s] l
    by auto
  have n: "0 < length (positives vs)" using assms(2) by simp
  then have "nat (int (length (positives vs)) - 1) = length (positives vs) - 1" by linarith
  with n p assms(2) have "summarize vs = Some \<lparr>s_count = int (length (positives vs)),
       s_min = ?s ! 0, s_max = ?s ! (length (positives vs) - 1),
       s_mean = fdiv (foldl fadd (Fin 0) (positives vs)) (of_int64 (int (length (positives vs)))),
       s_p50 = a, s_p90 = b, s_p99 = c\<rparr>"
    by (simp add: summarize_def collect_eq slice_at_in Let_def)
  with p that show thesis by blast
qed

lemma sort_extremes:
  assumes "x \<in> set xs"
  shows "sort xs ! 0 \<le> x" and "x \<le> sort xs ! (length xs - 1)"
proof -
  from assms obtain i where i: "i < length xs" "x = sort xs ! i"
    by (metis in_set_conv_nth length_sort set_sort)
  then show "sort xs ! 0 \<le> x" "x \<le> sort xs ! (length xs - 1)"
    using sorted_nth_mono [of "sort xs"] by auto
qed

lemma sort_mset_eq: "mset xs = mset ys \<Longrightarrow> sort xs = sort ys"
  by (rule properties_for_sort) simp_all

text \<open>The median of an odd number of finite values is the middle one, with no rounding.\<close>

lemma half_exact: "fdiv (Fin 50) (Fin 100) = Fin (1 / 2)"
proof -
  have "is_f64 (1 / 2)"
    by (rule is_f64I [where m = 1 and e = "- 1"]) (simp_all add: pow2_def power_int_def)
  then show ?thesis by (simp add: is_f64_def)
qed

lemma percentile_median:
  assumes "length xs = 2 * k + 1" and "k \<le> 2 ^ 40" and "\<forall>x \<in> set xs. \<exists>q. x = Fin q \<and> is_f64 q"
  shows "percentile xs (Fin 50) = Some (xs ! k)"
proof (cases "k = 0")
  case True
  with assms(1) show ?thesis by (auto simp: percentile_def slice_at_def)
next
  case False
  let ?k = "rat_of_int (int k)"
  have n: "int (length xs) - 1 = int (2 * k)" "xs \<noteq> []" "length xs \<noteq> 1"
    "\<not> int (length xs) \<le> int k + 1" using assms(1) False by auto
  have "of_int64 (int (2 * k)) = Fin (rat_of_int (int (2 * k)))"
    using is_f64_of_int [of "int (2 * k)"] assms(2) unfolding of_int64_def is_f64_def by simp
  moreover have k: "round64 ?k = Fin ?k"
    using is_f64_of_int [of "int k"] assms(2) unfolding is_f64_def by simp
  ultimately have rank: "fmul (fdiv (Fin 50) (Fin 100)) (of_int64 (int (length xs) - 1)) = Fin ?k"
    unfolding half_exact n by simp
  have weight: "fsub (Fin ?k) (of_int64 (int k)) = Fin 0"
    using k by (simp add: of_int64_def fsub_def)
  have one: "fsub (Fin 1) (Fin 0) = Fin 1"
    using is_f64_of_int [of 1] by (simp add: is_f64_def fsub_def)
  have mem: "xs ! k \<in> set xs" "xs ! (k + 1) \<in> set xs"
    using assms(1) False by (intro nth_mem; simp)+
  obtain a where a: "xs ! k = Fin a" "is_f64 a" using assms(3) mem(1) by blast
  obtain b where b: "xs ! (k + 1) = Fin b" using assms(3) mem(2) by blast
  have at: "slice_at xs (int k) = Some (Fin a)" "slice_at xs (int k + 1) = Some (Fin b)"
    using a b assms(1) False by (auto simp: slice_at_def nat_add_distrib)
  have lower: "trunc64 (Fin ?k) = int k" by simp
  have mix: "fadd (fmul (Fin a) (Fin 1)) (fmul (Fin b) (Fin 0)) = Fin a"
    using a(2) by (simp add: is_f64_def)
  show ?thesis
    unfolding percentile_def Let_def rank lower weight one
    using n at a(1) mix by simp
qed

section \<open>Properties\<close>

text \<open>
  C36: On curl times given in whole microseconds (each at most \<open>2 ^ 45\<close>, over a year)
  \<open>PhasesFromCurl\<close>, which works in binary64, computes exactly the integer differences:
  every field is the binary64 nearest to the difference in microseconds, cut off at zero, and
  the handshake is zero when curl reports no appconnect time.
\<close>

theorem phases_exact:
  assumes "usec_ok u"
  shows "phases_from_curl (curl_times_of u) = phases_spec u"
  using assms by (rule phases_from_curl_usec)

definition sample_curl :: curl_usec where
  "sample_curl = \<lparr>u_namelookup = 1000, u_connect = 4000, u_appconnect = 54000,
     u_pretransfer = 55000, u_starttransfer = 60000, u_redirect = 0, u_total = 160000\<rparr>"

lemma sample_curl_ok: "usec_ok sample_curl"
  by (simp add: usec_ok_def in_year_def sample_curl_def)

theorem phases_exact_witness:
  "phases_from_curl (curl_times_of sample_curl) =
     \<lparr>dns_ms = ms 1000, tcp_connect_ms = ms 3000, tls_handshake_ms = ms 50000,
      redirect_ms = ms 0, ttfb_ms = ms 5000, transfer_ms = ms 100000, client_total_ms = ms 160000\<rparr>"
  using phases_exact [OF sample_curl_ok] by (simp add: phases_spec_def sample_curl_def)

text \<open>
  C37: The phases do not overlap.  When curl's times are in chronological order (and
  appconnect is either absent or between connect and pretransfer), the five phases of the
  final transfer are the images of microsecond counts whose sum is at most the total.
\<close>

theorem phases_non_overlapping:
  assumes "usec_ok u" and "u_namelookup u \<le> u_connect u" and "u_connect u \<le> u_pretransfer u"
    and "u_appconnect u \<noteq> 0 \<Longrightarrow> u_connect u \<le> u_appconnect u \<and> u_appconnect u \<le> u_pretransfer u"
    and "u_pretransfer u \<le> u_starttransfer u" and "u_starttransfer u \<le> u_total u"
  shows "\<exists>d c h f x. phases_from_curl (curl_times_of u) =
      \<lparr>dns_ms = ms d, tcp_connect_ms = ms c, tls_handshake_ms = ms h, redirect_ms = ms (u_redirect u),
       ttfb_ms = ms f, transfer_ms = ms x, client_total_ms = ms (u_total u)\<rparr>
    \<and> d + c + h + f + x \<le> u_total u"
  using assms(2-) by (intro exI conjI, subst phases_from_curl_usec [OF assms(1)])
    (auto simp: phases_spec_def)

theorem phases_non_overlapping_witness:
  "\<exists>d c h f x. phases_from_curl (curl_times_of sample_curl) =
      \<lparr>dns_ms = ms d, tcp_connect_ms = ms c, tls_handshake_ms = ms h, redirect_ms = ms 0,
       ttfb_ms = ms f, transfer_ms = ms x, client_total_ms = ms 160000\<rparr>
    \<and> d + c + h + f + x \<le> 160000"
  using phases_non_overlapping [OF sample_curl_ok] by (simp add: sample_curl_def)

text \<open>
  No phase is ever negative, whatever the client posts: out-of-order times, times so
  large that the conversion overflows, infinities and NaN included.
\<close>

theorem phases_never_negative:
  "list_all (\<lambda>field. \<not> flt (field (phases_from_curl ct)) (Fin 0))
     [dns_ms, tcp_connect_ms, tls_handshake_ms, redirect_ms, ttfb_ms, transfer_ms, client_total_ms]"
  using not_neg_seconds_to_ms not_neg_delta not_neg_tls_delta
  by (simp add: phases_from_curl_def Let_def not_neg_def)

text \<open>
  C38: \<open>Summarize\<close> does not index out of range, counts the samples above zero, and its
  minimum and maximum are samples that bound all of them.
\<close>

theorem summarize_extremes:
  assumes "length vs \<le> 2 ^ 40" and "positives vs \<noteq> []"
  shows "\<exists>s. summarize vs = Some s \<and> s_count s = int (length (positives vs))
    \<and> s_min s \<in> set (positives vs) \<and> s_max s \<in> set (positives vs)
    \<and> (\<forall>v \<in> set (positives vs). s_min s \<le> v \<and> v \<le> s_max s)"
proof -
  let ?p = "positives vs"
  have "sort ?p ! i \<in> set ?p" if "i < length ?p" for i
    using that nth_mem [of i "sort ?p"] by simp
  moreover have "0 < length ?p" using assms(2) by simp
  ultimately show ?thesis
    using sort_extremes [of _ ?p] by (rule_tac summarize_cases [OF assms]) simp
qed

theorem summarize_extremes_witness:
  "\<exists>s. summarize [Fin 20, Fin 0, Fin 10] = Some s \<and> s_count s = 2
    \<and> s_min s \<le> Fin 10 \<and> Fin 20 \<le> s_max s"
  using summarize_extremes [of "[Fin 20, Fin 0, Fin 10]"] by (auto simp: positives_def)

text \<open>
  The order in which the samples arrive does not matter: two lists with the same
  samples have the same count, extremes and percentiles.
\<close>

theorem summarize_order_irrelevant:
  assumes "mset vs = mset ws"
  shows "map_option (\<lambda>s. (s_count s, s_min s, s_max s, s_p50 s, s_p90 s, s_p99 s)) (summarize vs)
    = map_option (\<lambda>s. (s_count s, s_min s, s_max s, s_p50 s, s_p90 s, s_p99 s)) (summarize ws)"
proof -
  have m: "mset (positives vs) = mset (positives ws)"
    using assms by (simp add: positives_def)
  have "length (positives vs) = length (positives ws)" using m by (rule mset_eq_length)
  moreover have "positives vs = [] \<longleftrightarrow> positives ws = []" using m by auto
  ultimately show ?thesis
    by (simp add: summarize_def collect_eq sort_mset_eq [OF m] Let_def split: option.split)
qed

theorem summarize_order_irrelevant_witness:
  "map_option s_p90 (summarize [Fin 3, Fin 1, Fin 2]) = map_option s_p90 (summarize [Fin 1, Fin 2, Fin 3])"
proof -
  have "map_option (\<lambda>(c, lo, hi, a, b, z). b)
      (map_option (\<lambda>s. (s_count s, s_min s, s_max s, s_p50 s, s_p90 s, s_p99 s)) (summarize [Fin 3, Fin 1, Fin 2]))
    = map_option (\<lambda>(c, lo, hi, a, b, z). b)
      (map_option (\<lambda>s. (s_count s, s_min s, s_max s, s_p50 s, s_p90 s, s_p99 s)) (summarize [Fin 1, Fin 2, Fin 3]))"
    by (subst summarize_order_irrelevant [of "[Fin 3, Fin 1, Fin 2]" "[Fin 1, Fin 2, Fin 3]"])
       (simp_all add: add_mset_commute)
  then show ?thesis by (simp add: option.map_comp comp_def)
qed

text \<open>
  The median of an odd number of finite positive samples is exactly the middle sample:
  interpolation at an integral rank introduces no rounding.
\<close>

theorem summarize_median:
  assumes "length (positives vs) = 2 * k + 1" and "length vs \<le> 2 ^ 40"
    and "\<forall>v \<in> set vs. \<exists>q. v = Fin q \<and> is_f64 q"
  shows "map_option s_p50 (summarize vs) = Some (sort (positives vs) ! k)"
proof -
  have "length (positives vs) \<le> length vs" by (simp add: positives_def)
  with assms(1,2) have "k \<le> 2 ^ 40" by simp
  moreover have "\<forall>v \<in> set (sort (positives vs)). \<exists>q. v = Fin q \<and> is_f64 q"
    using assms(3) by (auto simp: positives_def)
  ultimately have "percentile (sort (positives vs)) (Fin 50) = Some (sort (positives vs) ! k)"
    using assms(1) by (intro percentile_median) auto
  moreover have "positives vs \<noteq> []" using assms(1) by auto
  ultimately show ?thesis by (rule_tac summarize_cases [OF assms(2)]) auto
qed

theorem summarize_median_witness:
  "map_option s_p50 (summarize [Fin 7, Fin 0, Fin 3, Fin 5]) = Some (sort [Fin 7, Fin 3, Fin 5] ! 1)"
proof -
  have "is_f64 0" "is_f64 3" "is_f64 5" "is_f64 7"
    using is_f64_of_int [of 3] is_f64_of_int [of 5] is_f64_of_int [of 7] by simp_all
  then show ?thesis
    using summarize_median [of "[Fin 7, Fin 0, Fin 3, Fin 5]" 1] by (simp add: positives_def)
qed

end
