(* ===== verification/Results.thy ===== *)
theory Results
  imports Timing
begin

text \<open>
  Package \<open>internal/results\<close> (\<open>log.go\<close>): the run log, a file of JSON lines.

  A run is the record \<open>run\<close> with the fields of the struct \<open>Run\<close>.  Its JSON tags are the table
  \<open>field_name\<close> and \<open>omit_empty\<close>; \<open>marshal_run\<close> and \<open>unmarshal_run\<close> interpret the table the
  way \<open>encoding/json\<close> does (omitted zero values, keys compared without regard to case, unknown
  keys ignored, \<open>null\<close> ignored, a value of the wrong type an error, non-finite numbers not
  encodable, invalid UTF-8 replaced).  A JSON text is represented by its tree; the number of
  bytes of a text is the argument \<open>width\<close> of the operations, an arbitrary function.

  The log file is a list of tokens: line ends, JSON texts, and fragments, which are bytes that
  do not form a JSON text (what a write leaves that failed half-way).  A line is what stands
  between two line ends.  The record \<open>log_env\<close> says which system call fails, how many bytes a
  failing write leaves, and the time.  The mutex of the logger makes every operation atomic,
  so an execution is a sequence of operations.
\<close>

section \<open>Runs\<close>

text \<open>
  Times are nanoseconds since the first of January of year 1 (UTC), the zero value of
  \<open>time.Time\<close>.
\<close>

record run =
  r_timestamp :: int
  r_operation :: string
  r_name :: string
  r_bytes :: int
  r_tls :: bool
  r_client_addr :: string
  r_write_ms :: f64
  r_read_ms :: f64
  r_total_ms :: f64
  r_throughput :: f64
  r_tls_version :: string
  r_cipher :: string
  r_key_algorithm :: string
  r_key_size :: int
  r_key_curve :: string
  r_dns_ms :: f64
  r_tcp_connect_ms :: f64
  r_tls_handshake_ms :: f64
  r_tls_handshake_server_ms :: f64
  r_tls_reused :: bool
  r_redirect_ms :: f64
  r_ttfb_ms :: f64
  r_transfer_ms :: f64
  r_client_total_ms :: f64
  r_alpn :: string
  r_route_mode :: string
  r_experiment_id :: string
  r_sample_index :: int

definition zero_run :: run where
  "zero_run = \<lparr>r_timestamp = 0, r_operation = [], r_name = [], r_bytes = 0, r_tls = False,
     r_client_addr = [], r_write_ms = Fin 0, r_read_ms = Fin 0, r_total_ms = Fin 0,
     r_throughput = Fin 0, r_tls_version = [], r_cipher = [], r_key_algorithm = [],
     r_key_size = 0, r_key_curve = [], r_dns_ms = Fin 0, r_tcp_connect_ms = Fin 0,
     r_tls_handshake_ms = Fin 0, r_tls_handshake_server_ms = Fin 0, r_tls_reused = False,
     r_redirect_ms = Fin 0, r_ttfb_ms = Fin 0, r_transfer_ms = Fin 0, r_client_total_ms = Fin 0,
     r_alpn = [], r_route_mode = [], r_experiment_id = [], r_sample_index = 0\<rparr>"

record client_timing_meta =
  m_route_mode :: string
  m_experiment_id :: string
  m_sample_index :: int

section \<open>JSON\<close>

text \<open>
  \<open>JNum q\<close> is a number literal with a fraction or an exponent, \<open>JInt\<close> one without;
  \<open>JTime t\<close> is the string that is the RFC 3339 form of \<open>t\<close>.
\<close>

datatype json =
    JNull
  | JBool bool
  | JInt int
  | JNum rat
  | JStr string
  | JTime int
  | JArr "json list"
  | JObj "(string \<times> json) list"

text \<open>The values of the Go types that occur in \<open>Run\<close>.\<close>

datatype go_val = VTime int | VStr string | VInt int | VBool bool | VFloat f64

datatype run_field =
    Timestamp | Operation | Name | Bytes | TLS | ClientAddr | WriteMs | ReadMs | TotalMs
  | ThroughputMiBs | TLSVersion | Cipher | TLSKeyAlgorithm | TLSKeySize | TLSKeyCurve | DNSMs
  | TCPConnectMs | TLSHandshakeMs | TLSHandshakeServerMs | TLSReused | RedirectMs | TTFBMs
  | TransferMs | ClientTotalMs | ALPN | RouteMode | ExperimentID | SampleIndex

definition run_fields :: "run_field list" where
  "run_fields =
     [Timestamp, Operation, Name, Bytes, TLS, ClientAddr, WriteMs, ReadMs, TotalMs,
      ThroughputMiBs, TLSVersion, Cipher, TLSKeyAlgorithm, TLSKeySize, TLSKeyCurve, DNSMs,
      TCPConnectMs, TLSHandshakeMs, TLSHandshakeServerMs, TLSReused, RedirectMs, TTFBMs,
      TransferMs, ClientTotalMs, ALPN, RouteMode, ExperimentID, SampleIndex]"

fun field_name :: "run_field \<Rightarrow> string" where
  "field_name Timestamp = ''timestamp''"
| "field_name Operation = ''operation''"
| "field_name Name = ''name''"
| "field_name Bytes = ''bytes''"
| "field_name TLS = ''tls''"
| "field_name ClientAddr = ''client_addr''"
| "field_name WriteMs = ''write_ms''"
| "field_name ReadMs = ''read_ms''"
| "field_name TotalMs = ''total_ms''"
| "field_name ThroughputMiBs = ''throughput_mib_s''"
| "field_name TLSVersion = ''tls_version''"
| "field_name Cipher = ''cipher''"
| "field_name TLSKeyAlgorithm = ''tls_key_algorithm''"
| "field_name TLSKeySize = ''tls_key_size''"
| "field_name TLSKeyCurve = ''tls_key_curve''"
| "field_name DNSMs = ''dns_ms''"
| "field_name TCPConnectMs = ''tcp_connect_ms''"
| "field_name TLSHandshakeMs = ''tls_handshake_ms''"
| "field_name TLSHandshakeServerMs = ''tls_handshake_server_ms''"
| "field_name TLSReused = ''tls_reused''"
| "field_name RedirectMs = ''redirect_ms''"
| "field_name TTFBMs = ''ttfb_ms''"
| "field_name TransferMs = ''transfer_ms''"
| "field_name ClientTotalMs = ''client_total_ms''"
| "field_name ALPN = ''alpn''"
| "field_name RouteMode = ''route_mode''"
| "field_name ExperimentID = ''experiment_id''"
| "field_name SampleIndex = ''sample_index''"

text \<open>The fields without \<open>omitempty\<close>.\<close>

definition omit_empty :: "run_field \<Rightarrow> bool" where
  "omit_empty f \<longleftrightarrow> f \<notin> {Timestamp, Operation, Name, Bytes, TLS, ClientAddr, TotalMs, ThroughputMiBs}"

fun get_field :: "run_field \<Rightarrow> run \<Rightarrow> go_val" where
  "get_field Timestamp r = VTime (r_timestamp r)"
| "get_field Operation r = VStr (r_operation r)"
| "get_field Name r = VStr (r_name r)"
| "get_field Bytes r = VInt (r_bytes r)"
| "get_field TLS r = VBool (r_tls r)"
| "get_field ClientAddr r = VStr (r_client_addr r)"
| "get_field WriteMs r = VFloat (r_write_ms r)"
| "get_field ReadMs r = VFloat (r_read_ms r)"
| "get_field TotalMs r = VFloat (r_total_ms r)"
| "get_field ThroughputMiBs r = VFloat (r_throughput r)"
| "get_field TLSVersion r = VStr (r_tls_version r)"
| "get_field Cipher r = VStr (r_cipher r)"
| "get_field TLSKeyAlgorithm r = VStr (r_key_algorithm r)"
| "get_field TLSKeySize r = VInt (r_key_size r)"
| "get_field TLSKeyCurve r = VStr (r_key_curve r)"
| "get_field DNSMs r = VFloat (r_dns_ms r)"
| "get_field TCPConnectMs r = VFloat (r_tcp_connect_ms r)"
| "get_field TLSHandshakeMs r = VFloat (r_tls_handshake_ms r)"
| "get_field TLSHandshakeServerMs r = VFloat (r_tls_handshake_server_ms r)"
| "get_field TLSReused r = VBool (r_tls_reused r)"
| "get_field RedirectMs r = VFloat (r_redirect_ms r)"
| "get_field TTFBMs r = VFloat (r_ttfb_ms r)"
| "get_field TransferMs r = VFloat (r_transfer_ms r)"
| "get_field ClientTotalMs r = VFloat (r_client_total_ms r)"
| "get_field ALPN r = VStr (r_alpn r)"
| "get_field RouteMode r = VStr (r_route_mode r)"
| "get_field ExperimentID r = VStr (r_experiment_id r)"
| "get_field SampleIndex r = VInt (r_sample_index r)"

text \<open>
  Assigning a field.  The decoder only passes values of the type of the field, on which the
  projections are the arguments of the constructors.
\<close>

definition as_time :: "go_val \<Rightarrow> int" where
  "as_time v = (case v of VTime x \<Rightarrow> x | _ \<Rightarrow> 0)"

definition as_str :: "go_val \<Rightarrow> string" where
  "as_str v = (case v of VStr x \<Rightarrow> x | _ \<Rightarrow> [])"

definition as_int :: "go_val \<Rightarrow> int" where
  "as_int v = (case v of VInt x \<Rightarrow> x | _ \<Rightarrow> 0)"

definition as_bool :: "go_val \<Rightarrow> bool" where
  "as_bool v = (case v of VBool x \<Rightarrow> x | _ \<Rightarrow> False)"

definition as_float :: "go_val \<Rightarrow> f64" where
  "as_float v = (case v of VFloat x \<Rightarrow> x | _ \<Rightarrow> Fin 0)"

fun set_field :: "run_field \<Rightarrow> go_val \<Rightarrow> run \<Rightarrow> run" where
  "set_field Timestamp v r = r\<lparr>r_timestamp := as_time v\<rparr>"
| "set_field Operation v r = r\<lparr>r_operation := as_str v\<rparr>"
| "set_field Name v r = r\<lparr>r_name := as_str v\<rparr>"
| "set_field Bytes v r = r\<lparr>r_bytes := as_int v\<rparr>"
| "set_field TLS v r = r\<lparr>r_tls := as_bool v\<rparr>"
| "set_field ClientAddr v r = r\<lparr>r_client_addr := as_str v\<rparr>"
| "set_field WriteMs v r = r\<lparr>r_write_ms := as_float v\<rparr>"
| "set_field ReadMs v r = r\<lparr>r_read_ms := as_float v\<rparr>"
| "set_field TotalMs v r = r\<lparr>r_total_ms := as_float v\<rparr>"
| "set_field ThroughputMiBs v r = r\<lparr>r_throughput := as_float v\<rparr>"
| "set_field TLSVersion v r = r\<lparr>r_tls_version := as_str v\<rparr>"
| "set_field Cipher v r = r\<lparr>r_cipher := as_str v\<rparr>"
| "set_field TLSKeyAlgorithm v r = r\<lparr>r_key_algorithm := as_str v\<rparr>"
| "set_field TLSKeySize v r = r\<lparr>r_key_size := as_int v\<rparr>"
| "set_field TLSKeyCurve v r = r\<lparr>r_key_curve := as_str v\<rparr>"
| "set_field DNSMs v r = r\<lparr>r_dns_ms := as_float v\<rparr>"
| "set_field TCPConnectMs v r = r\<lparr>r_tcp_connect_ms := as_float v\<rparr>"
| "set_field TLSHandshakeMs v r = r\<lparr>r_tls_handshake_ms := as_float v\<rparr>"
| "set_field TLSHandshakeServerMs v r = r\<lparr>r_tls_handshake_server_ms := as_float v\<rparr>"
| "set_field TLSReused v r = r\<lparr>r_tls_reused := as_bool v\<rparr>"
| "set_field RedirectMs v r = r\<lparr>r_redirect_ms := as_float v\<rparr>"
| "set_field TTFBMs v r = r\<lparr>r_ttfb_ms := as_float v\<rparr>"
| "set_field TransferMs v r = r\<lparr>r_transfer_ms := as_float v\<rparr>"
| "set_field ClientTotalMs v r = r\<lparr>r_client_total_ms := as_float v\<rparr>"
| "set_field ALPN v r = r\<lparr>r_alpn := as_str v\<rparr>"
| "set_field RouteMode v r = r\<lparr>r_route_mode := as_str v\<rparr>"
| "set_field ExperimentID v r = r\<lparr>r_experiment_id := as_str v\<rparr>"
| "set_field SampleIndex v r = r\<lparr>r_sample_index := as_int v\<rparr>"

section \<open>Encoding and decoding of a struct\<close>

text \<open>
  The zero values that \<open>omitempty\<close> leaves out; the encoding of a value, \<open>None\<close> where
  \<open>encoding/json\<close> reports an error (a non-finite number, a year outside 0 to 9999).
\<close>

fun empty_val :: "go_val \<Rightarrow> bool" where
  "empty_val (VTime _) = False"
| "empty_val (VStr s) = (s = [])"
| "empty_val (VInt i) = (i = 0)"
| "empty_val (VBool b) = (\<not> b)"
| "empty_val (VFloat x) = (x = Fin 0)"

definition json_time :: "int \<Rightarrow> bool" where
  "json_time t \<longleftrightarrow> - (31622400 * 10 ^ 9) \<le> t \<and> t < 315537897600 * 10 ^ 9"

fun enc_val :: "go_val \<Rightarrow> json option" where
  "enc_val (VTime t) = (if json_time t then Some (JTime t) else None)"
| "enc_val (VStr s) = Some (JStr (utf8_fix s))"
| "enc_val (VInt i) = Some (JInt i)"
| "enc_val (VBool b) = Some (JBool b)"
| "enc_val (VFloat (Fin q)) = Some (JNum q)"
| "enc_val (VFloat _) = None"

definition read_float :: "rat \<Rightarrow> go_val option" where
  "read_float q = (case round64 q of Fin x \<Rightarrow> Some (VFloat (Fin x)) | _ \<Rightarrow> None)"

text \<open>Decoding into a field that holds a value of its type.\<close>

fun dec_val :: "go_val \<Rightarrow> json \<Rightarrow> go_val option" where
  "dec_val v JNull = Some v"
| "dec_val (VTime _) (JTime t) = Some (VTime t)"
| "dec_val (VStr _) (JStr s) = Some (VStr (utf8_fix s))"
| "dec_val (VInt _) (JInt i) = (if int64 i then Some (VInt i) else None)"
| "dec_val (VBool _) (JBool b) = Some (VBool b)"
| "dec_val (VFloat _) (JInt i) = read_float (of_int i)"
| "dec_val (VFloat _) (JNum q) = read_float q"
| "dec_val _ _ = None"

text \<open>The walk over the fields of a struct, and over the members of an object.\<close>

fun enc_members ::
  "('f \<Rightarrow> string) \<Rightarrow> ('f \<Rightarrow> bool) \<Rightarrow> ('f \<Rightarrow> 'r \<Rightarrow> go_val) \<Rightarrow> 'f list \<Rightarrow> 'r \<Rightarrow> (string \<times> json) list option" where
  "enc_members key omit get [] r = Some []"
| "enc_members key omit get (f # fs) r =
     (if omit f \<and> empty_val (get f r) then enc_members key omit get fs r
      else case enc_val (get f r) of
             None \<Rightarrow> None
           | Some j \<Rightarrow> map_option (\<lambda>mems. (key f, j) # mems) (enc_members key omit get fs r))"

fun dec_members ::
  "(string \<Rightarrow> 'f option) \<Rightarrow> ('f \<Rightarrow> 'r \<Rightarrow> go_val) \<Rightarrow> ('f \<Rightarrow> go_val \<Rightarrow> 'r \<Rightarrow> 'r)
     \<Rightarrow> (string \<times> json) list \<Rightarrow> 'r \<Rightarrow> 'r option" where
  "dec_members fnd get upd [] r = Some r"
| "dec_members fnd get upd ((k, j) # mems) r =
     (case fnd k of
        None \<Rightarrow> dec_members fnd get upd mems r
      | Some f \<Rightarrow> (case dec_val (get f r) j of
                    None \<Rightarrow> None
                  | Some v \<Rightarrow> dec_members fnd get upd mems (upd f v r)))"

definition find_field :: "string \<Rightarrow> run_field option" where
  "find_field k = List.find (\<lambda>f. fold_key (field_name f) = fold_key k) run_fields"

definition marshal_run :: "run \<Rightarrow> json option" where
  "marshal_run r = map_option JObj (enc_members field_name omit_empty get_field run_fields r)"

fun unmarshal_run :: "json \<Rightarrow> run option" where
  "unmarshal_run (JObj mems) = dec_members find_field get_field set_field mems zero_run"
| "unmarshal_run JNull = Some zero_run"
| "unmarshal_run _ = None"

text \<open>
  The interface of a struct with its JSON tags: fields that are found by their key, that are
  read and assigned independently of each other, and that together determine the value.
\<close>

fun same_type :: "go_val \<Rightarrow> go_val \<Rightarrow> bool" where
  "same_type (VTime _) (VTime _) = True"
| "same_type (VStr _) (VStr _) = True"
| "same_type (VInt _) (VInt _) = True"
| "same_type (VBool _) (VBool _) = True"
| "same_type (VFloat _) (VFloat _) = True"
| "same_type _ _ = False"

text \<open>A value that survives the trip through JSON.\<close>

fun portable :: "go_val \<Rightarrow> bool" where
  "portable (VTime t) = json_time t"
| "portable (VStr s) = valid_utf8 s"
| "portable (VInt i) = int64 i"
| "portable (VBool _) = True"
| "portable (VFloat (Fin q)) = is_f64 q"
| "portable (VFloat _) = False"

lemma dec_enc_val:
  assumes "portable v" and "same_type w v"
  shows "\<exists>j. enc_val v = Some j \<and> dec_val w j = Some v"
  using assms
  by (induction w v rule: same_type.induct)
     (auto simp: valid_utf8_def read_float_def is_f64_def elim!: portable.elims)

lemma empty_val_eq: "empty_val v \<Longrightarrow> same_type v w \<Longrightarrow> empty_val w \<Longrightarrow> v = w"
  by (induction v w rule: same_type.induct) auto

locale record_codec =
  fixes fields :: "'f list" and key :: "'f \<Rightarrow> string" and omit :: "'f \<Rightarrow> bool"
    and get :: "'f \<Rightarrow> 'r \<Rightarrow> go_val" and upd :: "'f \<Rightarrow> go_val \<Rightarrow> 'r \<Rightarrow> 'r"
    and fnd :: "string \<Rightarrow> 'f option" and zero :: 'r
  assumes distinct_fields: "distinct fields"
    and find_key: "f \<in> set fields \<Longrightarrow> fnd (key f) = Some f"
    and get_upd: "same_type v (get f r) \<Longrightarrow> get g (upd f v r) = (if g = f then v else get g r)"
    and types: "same_type (get f r) (get f r')"
    and zero_empty: "omit f \<Longrightarrow> empty_val (get f zero)"
    and extensional: "(\<And>f. f \<in> set fields \<Longrightarrow> get f r = get f r') \<Longrightarrow> r = r'"
begin

lemma dec_enc_members:
  assumes "set fs \<subseteq> set fields" and "distinct fs"
    and "\<And>f. f \<in> set fs \<Longrightarrow> portable (get f r)"
    and "\<And>f. f \<in> set fs \<Longrightarrow> get f r0 = get f zero"
  shows "\<exists>mems r1. enc_members key omit get fs r = Some mems \<and> dec_members fnd get upd mems r0 = Some r1
    \<and> (\<forall>f. get f r1 = (if f \<in> set fs then get f r else get f r0))"
  using assms
proof (induction fs arbitrary: r0)
  case (Cons f fs)
  show ?case
  proof (cases "omit f \<and> empty_val (get f r)")
    case True
    with Cons.prems have "get f r0 = get f r"
      using empty_val_eq [OF _ types, of f r zero] zero_empty by simp
    moreover obtain mems r1 where "enc_members key omit get fs r = Some mems"
      "dec_members fnd get upd mems r0 = Some r1" "\<forall>g. get g r1 = (if g \<in> set fs then get g r else get g r0)"
      using Cons.IH [of r0] Cons.prems by auto
    ultimately show ?thesis using True by auto
  next
    case False
    obtain j where j: "enc_val (get f r) = Some j" "dec_val (get f r0) j = Some (get f r)"
      using dec_enc_val [OF _ types, of f r r0] Cons.prems(3) by auto
    let ?r = "upd f (get f r) r0"
    have get: "get g ?r = (if g = f then get f r else get g r0)" for g
      by (rule get_upd [OF types])
    have start: "get g ?r = get g zero" if "g \<in> set fs" for g
      using that Cons.prems(2,4) get by auto
    obtain mems r1 where mems: "enc_members key omit get fs r = Some mems"
      "dec_members fnd get upd mems ?r = Some r1" "\<forall>g. get g r1 = (if g \<in> set fs then get g r else get g ?r)"
      using Cons.IH [of ?r] Cons.prems start by auto
    have "fnd (key f) = Some f" using Cons.prems(1) by (intro find_key) simp
    with False j mems get show ?thesis by auto
  qed
qed simp

lemma round_trip:
  assumes "\<And>f. f \<in> set fields \<Longrightarrow> portable (get f r)"
  obtains mems where "enc_members key omit get fields r = Some mems" "dec_members fnd get upd mems zero = Some r"
proof -
  obtain mems r1 where mems: "enc_members key omit get fields r = Some mems" "dec_members fnd get upd mems zero = Some r1"
    "\<forall>f. get f r1 = (if f \<in> set fields then get f r else get f zero)"
    using dec_enc_members [of fields r zero] assms distinct_fields by auto
  then have "r1 = r" by (intro extensional) simp
  with mems that show thesis by simp
qed

end

lemma get_set_field:
  "same_type v (get_field f r) \<Longrightarrow> get_field g (set_field f v r) = (if g = f then v else get_field g r)"
  by (cases f; cases v; simp add: as_time_def as_str_def as_int_def as_bool_def as_float_def; cases g; simp)

lemma set_run_fields: "set run_fields = UNIV"
proof (intro set_eqI)
  show "f \<in> set run_fields \<longleftrightarrow> f \<in> UNIV" for f by (cases f) (simp_all add: run_fields_def)
qed

lemma find_field_name: "find_field (field_name f) = Some f"
proof -
  have "list_all (\<lambda>f. find_field (field_name f) = Some f) run_fields" by code_simp
  then show ?thesis by (simp add: list_all_iff set_run_fields)
qed

lemma get_field_ext:
  assumes "\<And>f. get_field f r = get_field f r'"
  shows "r = r'"
  using assms [of Timestamp] assms [of Operation] assms [of Name] assms [of Bytes] assms [of TLS]
    assms [of ClientAddr] assms [of WriteMs] assms [of ReadMs] assms [of TotalMs]
    assms [of ThroughputMiBs] assms [of TLSVersion] assms [of Cipher] assms [of TLSKeyAlgorithm]
    assms [of TLSKeySize] assms [of TLSKeyCurve] assms [of DNSMs] assms [of TCPConnectMs]
    assms [of TLSHandshakeMs] assms [of TLSHandshakeServerMs] assms [of TLSReused]
    assms [of RedirectMs] assms [of TTFBMs] assms [of TransferMs] assms [of ClientTotalMs]
    assms [of ALPN] assms [of RouteMode] assms [of ExperimentID] assms [of SampleIndex]
  by (cases r; cases r') simp

interpretation run_codec: record_codec run_fields field_name omit_empty get_field set_field find_field zero_run
proof
  show "distinct run_fields" by (simp add: run_fields_def)
  show "same_type (get_field f r) (get_field f r')" for f r r' by (cases f) simp_all
  show "empty_val (get_field f zero_run)" if "omit_empty f" for f
    using that by (cases f) (simp_all add: omit_empty_def zero_run_def)
  show "r = r'" if "\<And>f. f \<in> set run_fields \<Longrightarrow> get_field f r = get_field f r'" for r r'
    using that by (intro get_field_ext) (simp add: set_run_fields)
qed (simp_all add: find_field_name get_set_field)

definition run_portable :: "run \<Rightarrow> bool" where
  "run_portable r \<longleftrightarrow> list_all (\<lambda>f. portable (get_field f r)) run_fields"

lemma marshal_unmarshal:
  assumes "run_portable r"
  obtains j where "marshal_run r = Some j" and "unmarshal_run j = Some r"
proof -
  obtain mems where "enc_members field_name omit_empty get_field run_fields r = Some mems"
    "dec_members find_field get_field set_field mems zero_run = Some r"
    using run_codec.round_trip [of r] assms unfolding run_portable_def list_all_iff by metis
  then show thesis using that [of "JObj mems"] by (simp add: marshal_run_def)
qed

section \<open>The log file\<close>

datatype token = Newline | Text json | Fragment nat

type_synonym log_file = "token list"

datatype log_op =
    MkdirLog | OpenAppend | WriteLog | SyncLog | OpenRead | ReadLog
  | OpenTemp | WriteTemp nat | SyncLogTemp | CloseLogTemp | RenameLogTemp | RemoveLogTemp

text \<open>\<open>lg_now\<close> is the clock; \<open>lg_cut\<close> is the number of bytes that a failing write leaves.\<close>

record log_env =
  lg_fails :: "log_op \<Rightarrow> bool"
  lg_cut :: nat
  lg_now :: int

text \<open>The results file and the temporary file next to it; \<open>None\<close> when it does not exist.\<close>

record logger =
  lf_main :: "log_file option"
  lf_temp :: "log_file option"

datatype log_sentinel = ErrNoMatchingRun | ErrAmbiguousRun

type_synonym log_error = "log_sentinel gerror"

definition new_logger :: "log_env \<Rightarrow> logger \<Rightarrow> log_error + logger" where
  "new_logger env existing =
     (if lg_fails env MkdirLog then Inl (Wrapped ''create results directory'' (SysErr ''mkdir''))
      else Inr existing)"

text \<open>The first \<open>n\<close> bytes of a line that a failing write leaves.\<close>

definition torn :: "(json \<Rightarrow> nat) \<Rightarrow> json \<Rightarrow> nat \<Rightarrow> log_file" where
  "torn width j n =
     (if n = 0 then [] else if n < width j then [Fragment n]
      else if n = width j then [Text j] else [Text j, Newline])"

text \<open>The lines of a file; the last one is what follows the last line end, when it is not empty.\<close>

fun log_lines :: "log_file \<Rightarrow> log_file \<Rightarrow> log_file list" where
  "log_lines cur [] = (if cur = [] then [] else [cur])"
| "log_lines cur (Newline # ts) = cur # log_lines [] ts"
| "log_lines cur (t # ts) = log_lines (cur @ [t]) ts"

fun token_width :: "(json \<Rightarrow> nat) \<Rightarrow> token \<Rightarrow> nat" where
  "token_width width Newline = 1"
| "token_width width (Text j) = width j"
| "token_width width (Fragment n) = n"

definition line_width :: "(json \<Rightarrow> nat) \<Rightarrow> log_file \<Rightarrow> nat" where
  "line_width width l = sum_list (map (token_width width) l)"

definition scanner_max_tokens :: nat where "scanner_max_tokens = 1024 * 1024"

text \<open>The result of \<open>json.Unmarshal\<close> on a line: only a line that is one JSON text decodes.\<close>

fun parse_line :: "log_file \<Rightarrow> run option" where
  "parse_line [Text j] = unmarshal_run j"
| "parse_line _ = None"

text \<open>
  The scanning loop: a line that does not fit the buffer ends the scan with an error, blank
  and undecodable lines are skipped.
\<close>

fun scan_lines :: "(json \<Rightarrow> nat) \<Rightarrow> log_file list \<Rightarrow> run list \<Rightarrow> run list option" where
  "scan_lines width [] runs = Some runs"
| "scan_lines width (l # ls) runs =
     (if scanner_max_tokens \<le> line_width width l then None
      else if line_width width l = 0 then scan_lines width ls runs
      else case parse_line l of
             None \<Rightarrow> scan_lines width ls runs
           | Some r \<Rightarrow> scan_lines width ls (runs @ [r]))"

definition read_all_unlocked :: "(json \<Rightarrow> nat) \<Rightarrow> log_env \<Rightarrow> logger \<Rightarrow> log_error + run list" where
  "read_all_unlocked width env l =
     (case lf_main l of
        None \<Rightarrow> Inr []
      | Some ts \<Rightarrow>
          if lg_fails env OpenRead then Inl (Wrapped ''open results log'' (SysErr ''open''))
          else if lg_fails env ReadLog then Inl (Wrapped ''scan results log'' (SysErr ''read''))
          else case scan_lines width (log_lines [] ts) [] of
                 None \<Rightarrow> Inl (Wrapped ''scan results log'' (SysErr ''token too long''))
               | Some runs \<Rightarrow> Inr runs)"

section \<open>Throughput\<close>

definition bytes_per_mib :: f64 where "bytes_per_mib = Fin 1048576"

definition bulk_duration_ms :: "run \<Rightarrow> f64" where
  "bulk_duration_ms r =
     (if r_operation r = ''upload'' \<and> flt (Fin 0) (r_ttfb_ms r) then r_ttfb_ms r
      else if r_operation r = ''download'' \<and> flt (Fin 0) (r_transfer_ms r) then r_transfer_ms r
      else if r_operation r \<notin> {''upload'', ''download''} \<and> flt (Fin 0) (r_transfer_ms r) then r_transfer_ms r
      else if flt (Fin 0) (r_client_total_ms r) then r_client_total_ms r
      else r_total_ms r)"

definition throughput :: "run \<Rightarrow> f64" where
  "throughput r =
     (if r_bytes r \<le> 0 then Fin 0
      else let duration = bulk_duration_ms r
           in if fle duration (Fin 0) then Fin 0
              else let seconds = fdiv duration (Fin 1000)
                   in fdiv (fdiv (of_int64 (r_bytes r)) bytes_per_mib) seconds)"

section \<open>Appending\<close>

definition append_unlocked :: "(json \<Rightarrow> nat) \<Rightarrow> log_env \<Rightarrow> run \<Rightarrow> logger \<Rightarrow> log_error option \<times> logger" where
  "append_unlocked width env r l =
     (case marshal_run r of
        None \<Rightarrow> (Some (Wrapped ''marshal run'' (SysErr ''json'')), l)
      | Some j \<Rightarrow>
          if lg_fails env OpenAppend then (Some (Wrapped ''open results log'' (SysErr ''open'')), l)
          else
            let ts = (case lf_main l of None \<Rightarrow> [] | Some ts \<Rightarrow> ts)
            in if lg_fails env WriteLog
               then (Some (Wrapped ''append results log'' (SysErr ''write'')),
                     l\<lparr>lf_main := Some (ts @ torn width j (lg_cut env))\<rparr>)
               else if lg_fails env SyncLog
               then (Some (Wrapped ''sync results log'' (SysErr ''fsync'')),
                     l\<lparr>lf_main := Some (ts @ [Text j, Newline])\<rparr>)
               else (None, l\<lparr>lf_main := Some (ts @ [Text j, Newline])\<rparr>))"

text \<open>What \<open>Append\<close> adds to the run it is given.\<close>

definition stamp :: "log_env \<Rightarrow> run \<Rightarrow> run" where
  "stamp env r =
     (let r1 = (if r_timestamp r = 0 then r\<lparr>r_timestamp := lg_now env\<rparr> else r)
      in r1\<lparr>r_throughput := throughput r1\<rparr>)"

definition append :: "(json \<Rightarrow> nat) \<Rightarrow> log_env \<Rightarrow> run \<Rightarrow> logger \<Rightarrow> log_error option \<times> logger" where
  "append width env r l = append_unlocked width env (stamp env r) l"

section \<open>Rewriting and merging\<close>

text \<open>
  The loop that writes the temporary file: what has been written, and whether every run was.
  The write of the \<open>k\<close>-th run may fail after \<open>lg_cut\<close> bytes.
\<close>

fun write_runs :: "(json \<Rightarrow> nat) \<Rightarrow> log_env \<Rightarrow> nat \<Rightarrow> run list \<Rightarrow> log_file \<times> log_error option" where
  "write_runs width env k [] = ([], None)"
| "write_runs width env k (r # rs) =
     (case marshal_run r of
        None \<Rightarrow> ([], Some (Wrapped ''marshal run'' (SysErr ''json'')))
      | Some j \<Rightarrow>
          if lg_fails env (WriteTemp k)
          then (torn width j (lg_cut env), Some (Wrapped ''write results temp file'' (SysErr ''write'')))
          else let (ts, e) = write_runs width env (Suc k) rs in (Text j # Newline # ts, e))"

definition rewrite_unlocked :: "(json \<Rightarrow> nat) \<Rightarrow> log_env \<Rightarrow> run list \<Rightarrow> logger \<Rightarrow> log_error option \<times> logger" where
  "rewrite_unlocked width env runs l =
     (if lg_fails env OpenTemp then (Some (Wrapped ''create results temp file'' (SysErr ''open'')), l)
      else
        let (ts, e) = write_runs width env 0 runs;
            fail = (\<lambda>e. (Some e, l\<lparr>lf_temp := if lg_fails env RemoveLogTemp then Some ts else None\<rparr>))
        in case e of
             Some e \<Rightarrow> fail e
           | None \<Rightarrow>
               if lg_fails env SyncLogTemp then fail (Wrapped ''sync results temp file'' (SysErr ''fsync''))
               else if lg_fails env CloseLogTemp then fail (Wrapped ''close results temp file'' (SysErr ''close''))
               else if lg_fails env RenameLogTemp then fail (Wrapped ''replace results log'' (SysErr ''rename''))
               else (None, \<lparr>lf_main = Some ts, lf_temp = None\<rparr>))"

text \<open>The condition of the loop in \<open>findMergeIndex\<close>.\<close>

definition matches_run :: "string \<Rightarrow> string \<Rightarrow> client_timing_meta \<Rightarrow> run \<Rightarrow> bool" where
  "matches_run name operation meta r \<longleftrightarrow>
     r_operation r = operation
     \<and> (if m_experiment_id meta \<noteq> [] then r_experiment_id r = m_experiment_id meta \<and> r_sample_index r = m_sample_index meta
        else r_name r = name)"

fun merge_loop :: "(run \<Rightarrow> bool) \<Rightarrow> run list \<Rightarrow> nat \<Rightarrow> nat option \<times> nat \<Rightarrow> nat option \<times> nat" where
  "merge_loop P [] i acc = acc"
| "merge_loop P (r # rs) i (idx, n) = merge_loop P rs (Suc i) (if P r then (Some i, Suc n) else (idx, n))"

definition find_merge_index :: "run list \<Rightarrow> string \<Rightarrow> string \<Rightarrow> client_timing_meta \<Rightarrow> log_error + nat" where
  "find_merge_index runs name operation meta =
     (case merge_loop (matches_run name operation meta) runs 0 (None, 0) of
        (Some i, Suc 0) \<Rightarrow> Inr i
      | (_, 0) \<Rightarrow> Inl (Sentinel ErrNoMatchingRun)
      | _ \<Rightarrow> Inl (Sentinel ErrAmbiguousRun))"

definition apply_client_phases :: "phases \<Rightarrow> run \<Rightarrow> run" where
  "apply_client_phases p r =
     (let r1 = r\<lparr>r_dns_ms := dns_ms p, r_tcp_connect_ms := tcp_connect_ms p,
                 r_redirect_ms := redirect_ms p, r_ttfb_ms := ttfb_ms p,
                 r_transfer_ms := transfer_ms p, r_client_total_ms := client_total_ms p\<rparr>
      in if flt (Fin 0) (tls_handshake_ms p) then r1\<lparr>r_tls_handshake_ms := tls_handshake_ms p\<rparr> else r1)"

definition apply_client_meta :: "client_timing_meta \<Rightarrow> run \<Rightarrow> run" where
  "apply_client_meta meta r =
     (let r1 = (if m_route_mode meta \<noteq> [] then r\<lparr>r_route_mode := m_route_mode meta\<rparr> else r);
          r2 = (if m_experiment_id meta \<noteq> [] then r1\<lparr>r_experiment_id := m_experiment_id meta\<rparr> else r1)
      in if 0 < m_sample_index meta then r2\<lparr>r_sample_index := m_sample_index meta\<rparr> else r2)"

text \<open>What a merge makes of the run it selects.\<close>

definition merged :: "phases \<Rightarrow> client_timing_meta \<Rightarrow> run \<Rightarrow> run" where
  "merged p meta r =
     (let r1 = apply_client_meta meta (apply_client_phases p r) in r1\<lparr>r_throughput := throughput r1\<rparr>)"

definition merge_client_timings ::
  "(json \<Rightarrow> nat) \<Rightarrow> log_env \<Rightarrow> string \<Rightarrow> string \<Rightarrow> phases \<Rightarrow> client_timing_meta \<Rightarrow> logger
     \<Rightarrow> (log_error + run) \<times> logger" where
  "merge_client_timings width env name operation p meta l =
     (case read_all_unlocked width env l of
        Inl e \<Rightarrow> (Inl (Wrapped ''read results log'' e), l)
      | Inr runs \<Rightarrow>
          (case find_merge_index runs name operation meta of
             Inl e \<Rightarrow> (Inl (Wrapped ''find merge target'' e), l)
           | Inr i \<Rightarrow>
               let r = merged p meta (runs ! i)
               in (case rewrite_unlocked width env (runs[i := r]) l of
                     (Some e, l') \<Rightarrow> (Inl (Wrapped ''rewrite results log'' e), l')
                   | (None, l') \<Rightarrow> (Inr r, l'))))"

section \<open>Reading\<close>

text \<open>The swapping loop of \<open>reverse\<close>.\<close>

function reverse_loop :: "nat \<Rightarrow> nat \<Rightarrow> 'a list \<Rightarrow> 'a list" where
  "reverse_loop i j xs = (if i < j then reverse_loop (i + 1) (j - 1) (xs[i := xs ! j, j := xs ! i]) else xs)"
  by pat_completeness auto
termination
  by (relation "measure (\<lambda>(i, j, xs). j)") auto

declare reverse_loop.simps [simp del]

definition reverse :: "'a list \<Rightarrow> 'a list" where
  "reverse xs = reverse_loop 0 (length xs - 1) xs"

definition read_newest_page :: "(json \<Rightarrow> nat) \<Rightarrow> log_env \<Rightarrow> int \<Rightarrow> logger \<Rightarrow> log_error + run list \<times> nat" where
  "read_newest_page width env limit l =
     (case read_all_unlocked width env l of
        Inl e \<Rightarrow> Inl (Wrapped ''read results log'' e)
      | Inr runs \<Rightarrow>
          let page = reverse runs
          in Inr (if 0 < limit \<and> limit < int (length page) then take (nat limit) page else page, length runs))"

definition read_newest :: "(json \<Rightarrow> nat) \<Rightarrow> log_env \<Rightarrow> int \<Rightarrow> logger \<Rightarrow> log_error + run list" where
  "read_newest width env limit l = map_sum id fst (read_newest_page width env limit l)"

section \<open>Lemmas\<close>

subsection \<open>Lines\<close>

definition closed_log :: "log_file \<Rightarrow> bool" where
  "closed_log ts \<longleftrightarrow> ts = [] \<or> last ts = Newline"

definition log_runs :: "(json \<Rightarrow> nat) \<Rightarrow> log_file \<Rightarrow> run list option" where
  "log_runs width ts = scan_lines width (log_lines [] ts) []"

lemma log_lines_append:
  "ts \<noteq> [] \<Longrightarrow> last ts = Newline \<Longrightarrow> log_lines cur (ts @ us) = log_lines cur ts @ log_lines [] us"
  by (induction cur ts rule: log_lines.induct) (auto split: if_splits)

lemma scan_lines_acc: "scan_lines width ls acc = map_option ((@) acc) (scan_lines width ls [])"
proof (induction ls arbitrary: acc)
  case (Cons l ls)
  show ?case
    by (simp add: Cons [of acc] Cons [of "acc @ _"] Cons [of "[_]"] option.map_comp comp_def split: option.splits)
qed simp

lemma scan_lines_append:
  "scan_lines width (ls @ ks) acc = Option.bind (scan_lines width ls acc) (scan_lines width ks)"
  by (induction ls arbitrary: acc) (auto split: option.splits)

lemma log_runs_append:
  assumes "closed_log ts"
  shows "log_runs width (ts @ us) =
    Option.bind (log_runs width ts) (\<lambda>a. map_option ((@) a) (log_runs width us))"
proof -
  have "log_lines [] (ts @ us) = log_lines [] ts @ log_lines [] us"
    using assms by (cases "ts = []") (auto simp: closed_log_def log_lines_append)
  then show ?thesis
    by (simp add: log_runs_def scan_lines_append) (metis scan_lines_acc)
qed

text \<open>A JSON text that the scanner accepts as a line.\<close>

definition fits :: "(json \<Rightarrow> nat) \<Rightarrow> json \<Rightarrow> bool" where
  "fits width j \<longleftrightarrow> 0 < width j \<and> width j < scanner_max_tokens"

lemma log_runs_line:
  assumes "fits width j"
  shows "log_runs width [Text j, Newline] = Some (case unmarshal_run j of None \<Rightarrow> [] | Some r \<Rightarrow> [r])"
    and "log_runs width [Text j] = Some (case unmarshal_run j of None \<Rightarrow> [] | Some r \<Rightarrow> [r])"
  using assms by (auto simp: log_runs_def fits_def line_width_def split: option.splits)

lemma log_runs_Nil [simp]: "log_runs width [] = Some []"
  by (simp add: log_runs_def)

lemma log_runs_fragment: "n < scanner_max_tokens \<Longrightarrow> log_runs width [Fragment n] = Some []"
  by (auto simp: log_runs_def line_width_def)

definition contents :: "(json \<Rightarrow> nat) \<Rightarrow> logger \<Rightarrow> run list option" where
  "contents width l = (case lf_main l of None \<Rightarrow> Some [] | Some ts \<Rightarrow> log_runs width ts)"

definition closed_logger :: "logger \<Rightarrow> bool" where
  "closed_logger l \<longleftrightarrow> (case lf_main l of None \<Rightarrow> True | Some ts \<Rightarrow> closed_log ts)"

definition readable :: "log_env \<Rightarrow> bool" where
  "readable env \<longleftrightarrow> \<not> lg_fails env OpenRead \<and> \<not> lg_fails env ReadLog"

lemma read_all_contents:
  "readable env \<Longrightarrow> contents width l = Some runs \<Longrightarrow> read_all_unlocked width env l = Inr runs"
  by (auto simp: read_all_unlocked_def contents_def readable_def log_runs_def split: option.splits)

lemma read_all_Inr: "read_all_unlocked width env l = Inr runs \<Longrightarrow> contents width l = Some runs"
  by (auto simp: read_all_unlocked_def contents_def log_runs_def split: option.splits if_splits)

definition log_quiet :: "log_env \<Rightarrow> bool" where
  "log_quiet env \<longleftrightarrow> (\<forall>op. \<not> lg_fails env op)"

lemma log_quiet_readable: "log_quiet env \<Longrightarrow> readable env"
  by (simp add: log_quiet_def readable_def)

subsection \<open>Records that JSON carries over\<close>

lemma portable_marshal:
  assumes "run_portable r"
  obtains j where "marshal_run r = Some j" and "unmarshal_run j = Some r"
  using assms by (rule marshal_unmarshal)

text \<open>The values of a Go type, with strings of valid UTF-8 and of bounded length.\<close>

fun typed_val :: "go_val \<Rightarrow> bool" where
  "typed_val (VStr s) = (valid_utf8 s \<and> length s \<le> 4096)"
| "typed_val (VInt i) = int64 i"
| "typed_val (VFloat (Fin q)) = is_f64 q"
| "typed_val _ = True"

definition typed_run :: "run \<Rightarrow> bool" where
  "typed_run r \<longleftrightarrow> (\<forall>f. typed_val (get_field f r))"

lemma enc_members_portable:
  assumes "enc_members key omit get fs r = Some mems" and "\<And>f. typed_val (get f r)" and "f \<in> set fs"
  shows "portable (get f r)"
  using assms(1,3)
proof (induction fs arbitrary: mems)
  case (Cons g fs)
  have "portable (get g r)"
  proof (cases "omit g \<and> empty_val (get g r)")
    case True
    then show ?thesis using assms(2) [of g] by (cases "get g r") auto
  next
    case False
    with Cons.prems(1) obtain j where "enc_val (get g r) = Some j" by (auto split: option.splits)
    then show ?thesis using assms(2) [of g]
      by (cases "get g r") (auto split: if_splits elim: enc_val.elims)
  qed
  moreover have "\<exists>mems'. enc_members key omit get fs r = Some mems'"
    using Cons.prems(1) by (auto split: if_splits option.splits)
  ultimately show ?case using Cons.IH Cons.prems(2) by auto
qed simp

lemma typed_marshal_portable:
  assumes "typed_run r" and "marshal_run r = Some j"
  shows "run_portable r"
proof -
  obtain mems where "enc_members field_name omit_empty get_field run_fields r = Some mems"
    using assms(2) by (auto simp: marshal_run_def)
  from enc_members_portable [OF this] assms(1) show ?thesis
    by (auto simp: run_portable_def typed_run_def list_all_iff)
qed

lemma typed_marshal_unmarshal:
  assumes "typed_run r" and "marshal_run r = Some j"
  shows "unmarshal_run j = Some r"
  using marshal_unmarshal [OF typed_marshal_portable [OF assms]] assms(2) by auto

subsection \<open>Appending\<close>

lemma contents_append:
  assumes "closed_logger l" and "contents width l = Some runs"
  shows "contents width (l\<lparr>lf_main := Some ((case lf_main l of None \<Rightarrow> [] | Some ts \<Rightarrow> ts) @ us)\<rparr>)
      = map_option ((@) runs) (log_runs width us)"
  using assms
  by (cases "lf_main l"; cases "log_runs width us") (auto simp: contents_def closed_logger_def log_runs_append)

lemma append_ok:
  assumes "append width env r l = (None, l')" and "typed_run (stamp env r)"
    and "closed_logger l" and "contents width l = Some runs"
    and "\<And>j. marshal_run (stamp env r) = Some j \<Longrightarrow> fits width j"
  shows "contents width l' = Some (runs @ [stamp env r])" and "closed_logger l'"
proof -
  from assms(1) obtain j where j: "marshal_run (stamp env r) = Some j"
    and l': "l' = l\<lparr>lf_main := Some ((case lf_main l of None \<Rightarrow> [] | Some ts \<Rightarrow> ts) @ [Text j, Newline])\<rparr>"
    by (auto simp: append_def append_unlocked_def Let_def split: option.splits if_splits)
  show "contents width l' = Some (runs @ [stamp env r])"
    unfolding l' contents_append [OF assms(3,4)] log_runs_line(1) [OF assms(5) [OF j]]
    by (simp add: typed_marshal_unmarshal [OF assms(2) j])
  show "closed_logger l'" by (simp add: l' closed_logger_def closed_log_def)
qed

lemma torn_runs:
  assumes "fits width j" and "unmarshal_run j = Some r"
  shows "log_runs width (torn width j n) \<in> {Some [], Some [r]}"
  using assms log_runs_line [OF assms(1)] log_runs_fragment [of n width]
  by (auto simp: torn_def fits_def)

lemma append_error:
  assumes "append width env r l = (Some e, l')" and "typed_run (stamp env r)"
    and "closed_logger l" and "contents width l = Some runs"
    and "\<And>j. marshal_run (stamp env r) = Some j \<Longrightarrow> fits width j"
  shows "contents width l' \<in> {Some runs, Some (runs @ [stamp env r])}"
proof (cases "marshal_run (stamp env r)")
  case None
  with assms(1,4) show ?thesis by (simp add: append_def append_unlocked_def)
next
  case (Some j)
  note line = log_runs_line(1) [OF assms(5) [OF Some]]
  note runs = contents_append [OF assms(3,4)] typed_marshal_unmarshal [OF assms(2) Some]
  from Some assms(1) consider "l' = l"
    | "l' = l\<lparr>lf_main := Some ((case lf_main l of None \<Rightarrow> [] | Some ts \<Rightarrow> ts) @ torn width j (lg_cut env))\<rparr>"
    | "l' = l\<lparr>lf_main := Some ((case lf_main l of None \<Rightarrow> [] | Some ts \<Rightarrow> ts) @ [Text j, Newline])\<rparr>"
    by (auto simp: append_def append_unlocked_def Let_def split: if_splits)
  then show ?thesis
  proof cases
    case 1
    with assms(4) show ?thesis by simp
  next
    case 2
    with torn_runs [OF assms(5) [OF Some] runs(2), of "lg_cut env"] show ?thesis
      by (auto simp: runs(1))
  next
    case 3
    then show ?thesis by (simp add: runs line)
  qed
qed

subsection \<open>Rewriting\<close>

lemma write_runs_ok:
  assumes "write_runs width env k rs = (ts, None)" and "list_all typed_run rs"
    and "\<And>r j. r \<in> set rs \<Longrightarrow> marshal_run r = Some j \<Longrightarrow> fits width j"
  shows "closed_log ts \<and> log_runs width ts = Some rs"
  using assms
proof (induction rs arbitrary: k ts)
  case Nil
  then show ?case by (simp add: closed_log_def)
next
  case (Cons r rs)
  obtain us e where rest: "write_runs width env (Suc k) rs = (us, e)" by fastforce
  from Cons.prems(1) obtain j where j: "marshal_run r = Some j" and ts: "ts = [Text j, Newline] @ us" and e: "e = None"
    by (auto simp: rest split: option.splits if_splits)
  have us: "closed_log us" "log_runs width us = Some rs"
    using Cons.IH [of "Suc k" us] Cons.prems rest e by auto
  have "fits width j" using Cons.prems(3) [OF _ j] by simp
  moreover have "unmarshal_run j = Some r" using Cons.prems(2) j by (intro typed_marshal_unmarshal) auto
  moreover have "closed_log [Text j, Newline]" by (simp add: closed_log_def)
  ultimately have "log_runs width ts = Some (r # rs)"
    unfolding ts by (subst log_runs_append) (simp_all add: log_runs_line us)
  moreover have "closed_log ts" using us(1) by (auto simp: ts closed_log_def)
  ultimately show ?case by blast
qed

lemma write_runs_marshals:
  "write_runs width env k rs = (ts, None) \<Longrightarrow> list_all (\<lambda>r. marshal_run r \<noteq> None) rs"
  by (induction rs arbitrary: k ts) (auto split: option.splits if_splits prod.splits)

lemma rewrite_ok:
  assumes "rewrite_unlocked width env rs l = (None, l')"
  obtains ts where "write_runs width env 0 rs = (ts, None)" and "l' = \<lparr>lf_main = Some ts, lf_temp = None\<rparr>"
  using assms by (auto simp: rewrite_unlocked_def Let_def split: if_splits prod.splits option.splits)

lemma rewrite_contents:
  assumes "rewrite_unlocked width env rs l = (None, l')" and "list_all typed_run rs"
    and "\<And>r j. r \<in> set rs \<Longrightarrow> marshal_run r = Some j \<Longrightarrow> fits width j"
  shows "contents width l' = Some rs" and "closed_logger l'"
proof -
  from assms(1) obtain ts where ts: "write_runs width env 0 rs = (ts, None)" "l' = \<lparr>lf_main = Some ts, lf_temp = None\<rparr>"
    by (rule rewrite_ok)
  from write_runs_ok [OF ts(1) assms(2,3)] ts(2)
  show "contents width l' = Some rs" "closed_logger l'"
    by (simp_all add: contents_def closed_logger_def)
qed

lemma rewrite_error:
  assumes "rewrite_unlocked width env rs l = (Some e, l')"
  shows "lf_main l' = lf_main l" and "\<not> lg_fails env RemoveLogTemp \<Longrightarrow> lf_temp l' \<in> {lf_temp l, None}"
  using assms by (auto simp: rewrite_unlocked_def Let_def split: if_splits prod.splits option.splits)

lemma write_runs_None:
  assumes "list_all run_portable rs" and "\<And>k. \<not> lg_fails env (WriteTemp k)"
  shows "snd (write_runs width env k rs) = None"
  using assms(1)
proof (induction rs arbitrary: k)
  case (Cons r rs)
  from Cons.prems obtain j where "marshal_run r = Some j" by (auto elim: marshal_unmarshal)
  with Cons assms(2) show ?case by (simp add: case_prod_beta)
qed simp

subsection \<open>Merging\<close>

lemma merge_loop_count:
  "snd (merge_loop P rs i (idx, n)) = n + length (filter P rs)"
  by (induction rs arbitrary: i idx n) auto

lemma merge_loop_snoc:
  "merge_loop P (rs @ [r]) i acc =
     (let (idx, n) = merge_loop P rs i acc in if P r then (Some (i + length rs), Suc n) else (idx, n))"
  by (induction rs arbitrary: i acc) (auto split: prod.splits)

text \<open>The loop returns the last matching index and the number of matches.\<close>

lemma merge_loop_last:
  assumes "merge_loop P rs 0 (None, 0) = (idx, n)"
  shows "n = length (filter P rs)"
    and "case idx of None \<Rightarrow> filter P rs = [] | Some k \<Rightarrow> k < length rs \<and> P (rs ! k)"
  using assms
proof (induction rs arbitrary: idx n rule: rev_induct)
  case (snoc r rs)
  obtain idx' n' where m: "merge_loop P rs 0 (None, 0) = (idx', n')" by fastforce
  {
    case 1
    with snoc.IH(1) [OF m] m show ?case by (auto simp: merge_loop_snoc split: if_splits)
  next
    case 2
    with snoc.IH(2) [OF m] m show ?case
      by (auto simp: merge_loop_snoc nth_append split: if_splits option.splits)
  }
qed simp_all

text \<open>A single match is at a single index.\<close>

lemma filter_single:
  "length (filter P xs) = 1 \<longleftrightarrow> (\<exists>!k. k < length xs \<and> P (xs ! k))"
proof -
  have "length (filter P xs) = card {k. k < length xs \<and> P (xs ! k)}"
    by (simp add: length_filter_conv_card)
  then show ?thesis by (simp add: card_1_singleton_iff Ex1_def set_eq_iff) (metis)
qed

lemma find_merge_index_result:
  "find_merge_index runs name operation meta =
     (let n = length (filter (matches_run name operation meta) runs)
      in if n = 0 then Inl (Sentinel ErrNoMatchingRun)
         else if n = 1 then Inr (THE k. k < length runs \<and> matches_run name operation meta (runs ! k))
         else Inl (Sentinel ErrAmbiguousRun))"
proof -
  let ?P = "matches_run name operation meta"
  obtain idx n where m: "merge_loop ?P runs 0 (None, 0) = (idx, n)" by fastforce
  note last = merge_loop_last [OF m]
  consider "n = 0" | k where "n = 1" "idx = Some k" | "2 \<le> n"
  proof -
    assume *: "n = 0 \<Longrightarrow> thesis" "\<And>k. n = 1 \<Longrightarrow> idx = Some k \<Longrightarrow> thesis" "2 \<le> n \<Longrightarrow> thesis"
    show thesis
    proof (cases "n = 1")
      case True
      with last obtain k where "idx = Some k" by (cases idx) auto
      with True *(2) show thesis by blast
    next
      case False
      with *(1,3) show thesis by (cases "n = 0") auto
    qed
  qed
  then show ?thesis
  proof cases
    case 1
    with last(1) m show ?thesis by (cases idx) (simp_all add: find_merge_index_def)
  next
    case 2
    with last(1) have "\<exists>!k. k < length runs \<and> ?P (runs ! k)" by (simp flip: filter_single)
    moreover from 2 last(2) have "k < length runs \<and> ?P (runs ! k)" by simp
    ultimately have "(THE k. k < length runs \<and> ?P (runs ! k)) = k" by (rule the1_equality)
    with 2 last(1) m show ?thesis by (simp add: find_merge_index_def)
  next
    case 3
    then obtain n' where n': "n = Suc (Suc n')" by (metis Suc_le_D numeral_2_eq_2 Suc_le_mono)
    with m have "find_merge_index runs name operation meta = Inl (Sentinel ErrAmbiguousRun)"
      by (cases idx) (simp_all add: find_merge_index_def)
    then show ?thesis using 3 by (simp add: Let_def flip: last(1))
  qed
qed

lemma ex1_the_iff: "(\<exists>!k. Q k) \<and> (THE k. Q k) = i \<longleftrightarrow> Q i \<and> (\<forall>k. Q k \<longrightarrow> k = i)"
  by (rule iffI) (metis theI', auto intro: the_equality)

text \<open>The run at which a merge applies: the only one that matches.\<close>

lemma find_merge_index_iff:
  "find_merge_index runs name operation meta = Inr i \<longleftrightarrow>
     i < length runs \<and> matches_run name operation meta (runs ! i)
     \<and> (\<forall>k<length runs. k \<noteq> i \<longrightarrow> \<not> matches_run name operation meta (runs ! k))"
proof -
  let ?P = "\<lambda>k. k < length runs \<and> matches_run name operation meta (runs ! k)"
  have "find_merge_index runs name operation meta = Inr i \<longleftrightarrow> (\<exists>!k. ?P k) \<and> (THE k. ?P k) = i"
    by (auto simp: find_merge_index_result Let_def simp flip: filter_single)
  also have "\<dots> \<longleftrightarrow> ?P i \<and> (\<forall>k. ?P k \<longrightarrow> k = i)"
    by (rule ex1_the_iff)
  also have "\<dots> \<longleftrightarrow> i < length runs \<and> matches_run name operation meta (runs ! i)
     \<and> (\<forall>k<length runs. k \<noteq> i \<longrightarrow> \<not> matches_run name operation meta (runs ! k))" by blast
  finally show ?thesis .
qed

lemma merge_ok:
  assumes "merge_client_timings width env name operation p meta l = (Inr r, l')"
  obtains runs i where "contents width l = Some runs" and "find_merge_index runs name operation meta = Inr i"
    and "r = merged p meta (runs ! i)" and "rewrite_unlocked width env (runs[i := r]) l = (None, l')"
  using assms read_all_Inr [of width env l]
  by (auto simp: merge_client_timings_def Let_def split: sum.splits option.splits prod.splits)

lemma merge_error:
  assumes "merge_client_timings width env name operation p meta l = (Inl e, l')"
  shows "lf_main l' = lf_main l" and "\<not> lg_fails env RemoveLogTemp \<Longrightarrow> lf_temp l' \<in> {lf_temp l, None}"
  using assms
  by (auto simp: merge_client_timings_def Let_def dest: rewrite_error split: sum.splits option.splits prod.splits)

text \<open>Every number that the program computes is a double.\<close>

abbreviation typed_float :: "f64 \<Rightarrow> bool" where
  "typed_float x \<equiv> typed_val (VFloat x)"

lemma typed_round64 [simp]: "typed_float (round64 q)"
  using round64_is_f64 [of q] by (cases "round64 q") auto

lemma typed_fdiv [simp]: "typed_float (fdiv x y)"
  by (cases "(x, y)" rule: fdiv.cases) (auto simp: inf_of_sign_def)

lemma typed_throughput [simp]: "typed_float (throughput r)"
  by (simp add: throughput_def Let_def)

lemma typed_seconds_to_ms [simp]: "typed_float (seconds_to_ms x)"
  by (simp add: seconds_to_ms_def)

lemma typed_delta [simp]: "typed_float (delta x y)" "typed_float (tls_delta x y)"
  by (simp_all add: delta_def tls_delta_def Let_def)

definition typed_phases :: "phases \<Rightarrow> bool" where
  "typed_phases p \<longleftrightarrow> typed_float (dns_ms p) \<and> typed_float (tcp_connect_ms p) \<and> typed_float (tls_handshake_ms p)
     \<and> typed_float (redirect_ms p) \<and> typed_float (ttfb_ms p) \<and> typed_float (transfer_ms p)
     \<and> typed_float (client_total_ms p)"

definition typed_meta :: "client_timing_meta \<Rightarrow> bool" where
  "typed_meta m \<longleftrightarrow> typed_val (VStr (m_route_mode m)) \<and> typed_val (VStr (m_experiment_id m))
     \<and> typed_val (VInt (m_sample_index m))"

lemma typed_phases_from_curl [simp]: "typed_phases (phases_from_curl ct)"
  unfolding phases_from_curl_def typed_phases_def Let_def phases.simps
  by (intro conjI typed_seconds_to_ms typed_delta)

lemma typed_runD: "typed_run r \<Longrightarrow> typed_val (get_field f r)"
  by (simp add: typed_run_def)

lemma typed_merged:
  assumes "typed_run r" and "typed_phases p" and "typed_meta meta"
  shows "typed_run (merged p meta r)"
  unfolding typed_run_def
proof
  fix f
  have "get_field f (merged p meta r) \<in>
      {get_field f r, VFloat (dns_ms p), VFloat (tcp_connect_ms p), VFloat (tls_handshake_ms p),
       VFloat (redirect_ms p), VFloat (ttfb_ms p), VFloat (transfer_ms p), VFloat (client_total_ms p),
       VStr (m_route_mode meta), VStr (m_experiment_id meta), VInt (m_sample_index meta)}
      \<union> {VFloat (throughput r') | r'. True}"
    by (cases f) (auto simp: merged_def apply_client_phases_def apply_client_meta_def Let_def)
  then show "typed_val (get_field f (merged p meta r))"
    using assms(2,3) typed_runD [OF assms(1), of f]
    unfolding typed_phases_def typed_meta_def by (auto simp del: typed_val.simps)
qed

lemma typed_stamp: "typed_run r \<Longrightarrow> typed_run (stamp env r)"
  unfolding typed_run_def
proof
  fix f assume r: "\<forall>f. typed_val (get_field f r)"
  then have "typed_val (get_field f r)" by blast
  then show "typed_val (get_field f (stamp env r))"
    by (cases f) (auto simp: stamp_def Let_def simp del: typed_val.simps, simp_all)
qed

subsection \<open>Reading\<close>

lemma reverse_loop_nth:
  assumes "j < length xs" and "k < length xs"
  shows "length (reverse_loop i j xs) = length xs \<and>
    reverse_loop i j xs ! k = (if i \<le> k \<and> k \<le> j then xs ! (i + j - k) else xs ! k)"
  using assms
proof (induction i j xs rule: reverse_loop.induct)
  case (1 i j xs)
  show ?case
  proof (cases "i < j")
    case True
    let ?ys = "xs[i := xs ! j, j := xs ! i]"
    have "length (reverse_loop (i + 1) (j - 1) ?ys) = length ?ys \<and>
        reverse_loop (i + 1) (j - 1) ?ys ! k
          = (if i + 1 \<le> k \<and> k \<le> j - 1 then ?ys ! (i + 1 + (j - 1) - k) else ?ys ! k)"
      using 1 True by simp
    moreover have "i + 1 + (j - 1) - k = i + j - k" using True by simp
    moreover have "?ys ! (i + j - k) = xs ! (i + j - k)" if "i + 1 \<le> k" "k \<le> j - 1"
      using that True 1(2) by (simp add: nth_list_update)
    moreover have "?ys ! k = (if k = i then xs ! j else if k = j then xs ! i else xs ! k)"
      using True 1(2,3) by (auto simp: nth_list_update)
    ultimately show ?thesis
      using True by (subst reverse_loop.simps, subst reverse_loop.simps) auto
  next
    case False
    have "xs ! (i + j - k) = xs ! k" if "i \<le> k" "k \<le> j"
      using that False by (metis add_diff_cancel_right' le_antisym le_trans linorder_not_less)
    then show ?thesis using False by (simp add: reverse_loop.simps)
  qed
qed

lemma reverse_rev: "reverse xs = rev xs"
proof (rule nth_equalityI)
  show "length (reverse xs) = length (rev xs)"
    using reverse_loop_nth [of "length xs - 1" xs 0 0] by (cases xs) (auto simp: reverse_def reverse_loop.simps)
next
  fix k assume "k < length (reverse xs)"
  then have "k < length xs"
    using reverse_loop_nth [of "length xs - 1" xs 0 0] by (cases xs) (auto simp: reverse_def reverse_loop.simps)
  then show "reverse xs ! k = rev xs ! k"
    using reverse_loop_nth [of "length xs - 1" xs k 0]
    by (auto simp: reverse_def rev_nth)
qed

subsection \<open>Merging twice\<close>

abbreviation client_update :: "phases \<Rightarrow> client_timing_meta \<Rightarrow> run \<Rightarrow> run" where
  "client_update p meta r \<equiv> apply_client_meta meta (apply_client_phases p r)"

lemma throughput_throughput [simp]: "throughput (r\<lparr>r_throughput := x\<rparr>) = throughput r"
proof -
  have "bulk_duration_ms (r\<lparr>r_throughput := x\<rparr>) = bulk_duration_ms r"
    by (simp add: bulk_duration_ms_def)
  then show ?thesis by (simp add: throughput_def Let_def)
qed

lemma client_update_throughput:
  "client_update p meta (r\<lparr>r_throughput := x\<rparr>) = (client_update p meta r)\<lparr>r_throughput := x\<rparr>"
  by (cases r) (simp add: apply_client_meta_def apply_client_phases_def Let_def)

lemma client_update_idem: "client_update p meta (client_update p meta r) = client_update p meta r"
  by (cases r) (simp add: apply_client_meta_def apply_client_phases_def Let_def)

lemma merged_merged: "merged p meta (merged p meta r) = merged p meta r"
  by (simp add: merged_def Let_def client_update_throughput client_update_idem)

lemma matches_merged: "matches_run name operation meta r \<Longrightarrow> matches_run name operation meta (merged p meta r)"
  by (auto simp: matches_run_def merged_def apply_client_meta_def apply_client_phases_def Let_def)

subsection \<open>Sequences of operations\<close>

text \<open>The fields that the server measured: a merge leaves them alone.\<close>

definition client_field :: "run_field \<Rightarrow> bool" where
  "client_field f \<longleftrightarrow> f \<in> {DNSMs, TCPConnectMs, TLSHandshakeMs, RedirectMs, TTFBMs, TransferMs, ClientTotalMs,
     RouteMode, ExperimentID, SampleIndex, ThroughputMiBs}"

lemma merged_server_field: "\<not> client_field f \<Longrightarrow> get_field f (merged p meta r) = get_field f r"
  by (cases f) (auto simp: client_field_def merged_def apply_client_meta_def apply_client_phases_def Let_def)

definition measured :: "run \<Rightarrow> go_val list" where
  "measured r = map (\<lambda>f. get_field f r) (filter (\<lambda>f. \<not> client_field f) run_fields)"

lemma measured_merged [simp]: "measured (merged p meta r) = measured r"
  by (simp add: measured_def merged_server_field)

datatype log_action =
    Append log_env run
  | Merge log_env string string phases client_timing_meta

fun log_step :: "(json \<Rightarrow> nat) \<Rightarrow> log_action \<Rightarrow> logger \<Rightarrow> logger" where
  "log_step width (Append env r) l = snd (append width env r l)"
| "log_step width (Merge env name operation p meta) l = snd (merge_client_timings width env name operation p meta l)"

text \<open>The write of an appended line is not cut short, and the values are those of the Go types.\<close>

fun log_action_ok :: "log_action \<Rightarrow> bool" where
  "log_action_ok (Append env r) = (typed_run r \<and> \<not> lg_fails env WriteLog)"
| "log_action_ok (Merge env name operation p meta) = (typed_phases p \<and> typed_meta meta)"

text \<open>The JSON text of a run with bounded strings is not empty and fits a line of the scanner.\<close>

definition bounded_width :: "(json \<Rightarrow> nat) \<Rightarrow> bool" where
  "bounded_width width \<longleftrightarrow> (\<forall>r j. typed_run r \<longrightarrow> marshal_run r = Some j \<longrightarrow> fits width j)"

definition prefix_of :: "'a list \<Rightarrow> 'a list \<Rightarrow> bool" where
  "prefix_of xs ys \<longleftrightarrow> take (length xs) ys = xs"

lemma prefix_of_append: "prefix_of xs ys \<Longrightarrow> prefix_of xs (ys @ zs)"
  unfolding prefix_of_def by (metis append_eq_append_conv_if append_eq_conv_conj append_take_drop_id append.assoc)

definition log_ok :: "(json \<Rightarrow> nat) \<Rightarrow> logger \<Rightarrow> bool" where
  "log_ok width l \<longleftrightarrow> closed_logger l \<and> (\<exists>runs. contents width l = Some runs \<and> list_all typed_run runs)"

definition log_inv :: "(json \<Rightarrow> nat) \<Rightarrow> go_val list list \<Rightarrow> logger \<Rightarrow> bool" where
  "log_inv width base l \<longleftrightarrow> bounded_width width \<and> closed_logger l
     \<and> (\<exists>runs. contents width l = Some runs \<and> list_all typed_run runs \<and> prefix_of base (map measured runs))"

lemma append_no_cut:
  assumes "append width env r l = (e, l')" and "\<not> lg_fails env WriteLog"
  shows "l' = l \<or> (\<exists>j. marshal_run (stamp env r) = Some j
     \<and> l' = l\<lparr>lf_main := Some ((case lf_main l of None \<Rightarrow> [] | Some ts \<Rightarrow> ts) @ [Text j, Newline])\<rparr>)"
  using assms by (auto simp: append_def append_unlocked_def Let_def split: option.splits if_splits)

lemma append_inv:
  assumes "log_inv width base l" and "typed_run r" and "\<not> lg_fails env WriteLog"
  shows "log_inv width base (snd (append width env r l))"
proof -
  obtain e l' where a: "append width env r l = (e, l')" by fastforce
  from append_no_cut [OF this assms(3)] have "log_inv width base l'"
  proof
    assume "\<exists>j. marshal_run (stamp env r) = Some j
     \<and> l' = l\<lparr>lf_main := Some ((case lf_main l of None \<Rightarrow> [] | Some ts \<Rightarrow> ts) @ [Text j, Newline])\<rparr>"
    then obtain j where j: "marshal_run (stamp env r) = Some j"
      and l': "l' = l\<lparr>lf_main := Some ((case lf_main l of None \<Rightarrow> [] | Some ts \<Rightarrow> ts) @ [Text j, Newline])\<rparr>" by blast
    from assms(1) obtain runs where inv: "bounded_width width" "closed_logger l" "contents width l = Some runs"
      "list_all typed_run runs" "prefix_of base (map measured runs)" by (auto simp: log_inv_def)
    note typed = typed_stamp [OF assms(2), of env]
    with inv(1) j have "fits width j" by (auto simp: bounded_width_def)
    then have "contents width l' = Some (runs @ [stamp env r])"
      unfolding l' contents_append [OF inv(2,3)]
      by (simp add: log_runs_line typed_marshal_unmarshal [OF typed j])
    moreover have "closed_logger l'" by (simp add: l' closed_logger_def closed_log_def)
    ultimately show ?thesis using inv typed by (auto simp: log_inv_def prefix_of_append)
  qed (use assms(1) in simp)
  with a show ?thesis by simp
qed

lemma merge_inv:
  assumes "log_inv width base l" and "typed_phases p" and "typed_meta meta"
  shows "log_inv width base (snd (merge_client_timings width env name operation p meta l))"
proof -
  obtain r l' where m: "merge_client_timings width env name operation p meta l = (r, l')" by fastforce
  have "log_inv width base l'"
  proof (cases r)
    case (Inl e)
    with m have "lf_main l' = lf_main l" by (auto dest: merge_error)
    with assms(1) show ?thesis by (simp add: log_inv_def closed_logger_def contents_def)
  next
    case (Inr r')
    with m obtain runs i where runs: "contents width l = Some runs"
      "find_merge_index runs name operation meta = Inr i"
      "rewrite_unlocked width env (runs[i := merged p meta (runs ! i)]) l = (None, l')"
      by (auto elim: merge_ok)
    then have i: "i < length runs" by (simp add: find_merge_index_iff)
    from assms(1) runs(1) have inv: "bounded_width width" "list_all typed_run runs" "prefix_of base (map measured runs)"
      by (auto simp: log_inv_def)
    have typed: "list_all typed_run (runs[i := merged p meta (runs ! i)])"
      using inv(2) i typed_merged [OF _ assms(2,3)] set_update_subset_insert
      by (fastforce simp: list_all_iff)
    have "map measured (runs[i := merged p meta (runs ! i)]) = map measured runs"
      by (simp add: map_update i) (metis i list_update_id nth_map)
    moreover have "fits width j"
      if "r \<in> set (runs[i := merged p meta (runs ! i)])" and "marshal_run r = Some j" for r j
      using that typed inv(1) by (auto simp: list_all_iff bounded_width_def)
    ultimately show ?thesis
      using rewrite_contents [OF runs(3) typed] typed inv unfolding log_inv_def by metis
  qed
  with m show ?thesis by simp
qed

lemma log_inv_read:
  assumes "log_inv width (map measured runs) l" and "readable env"
  shows "\<exists>runs'. read_all_unlocked width env l = Inr runs'
      \<and> length runs \<le> length runs' \<and> map measured (take (length runs) runs') = map measured runs"
proof -
  from assms(1) obtain runs' where c: "contents width l = Some runs'"
    and p: "take (length runs) (map measured runs') = map measured runs"
    by (auto simp: log_inv_def prefix_of_def)
  from p have "length runs \<le> length runs'" by (metis length_map length_take min.cobounded1 min_def)
  with p read_all_contents [OF assms(2) c] show ?thesis by (auto simp: take_map)
qed

interpretation run_log: invariant_system "log_step width" "log_inv width base" log_action_ok for width base
proof
  fix l a
  assume "log_inv width base l" and "log_action_ok a"
  then show "log_inv width base (log_step width a l)"
    by (cases a) (simp_all add: append_inv merge_inv)
qed


section \<open>Properties\<close>

text \<open>C12: A run written to the log as JSON is read back unchanged, field by field, with omitted zero
  values restored, for every run whose strings are valid UTF-8, numbers are finite doubles or 64-bit
  integers, and time has a four-digit year.\<close>

theorem run_json_round_trip:
  assumes "run_portable r"
  shows "\<exists>j. marshal_run r = Some j \<and> unmarshal_run j = Some r"
  using assms by (meson marshal_unmarshal)

definition sample_run :: run where
  "sample_run = zero_run\<lparr>r_timestamp := 63800000000000000000, r_operation := ''upload'', r_name := ''a'',
     r_bytes := 1048576, r_total_ms := Fin 1000, r_experiment_id := ''e1'', r_sample_index := 2\<rparr>"

lemma is_f64_small [simp]: "is_f64 1" "is_f64 1000" "is_f64 1048576"
  using is_f64_of_int [of 1] is_f64_of_int [of 1000] is_f64_of_int [of 1048576] by simp_all

lemma sample_run_portable [simp]: "run_portable sample_run"
  by (simp add: run_portable_def run_fields_def sample_run_def zero_run_def json_time_def int64_def valid_utf8_ascii)

lemma run_json_round_trip_witness:
  "\<exists>j. marshal_run sample_run = Some j \<and> unmarshal_run j = Some sample_run"
  by (rule run_json_round_trip) simp

text \<open>C18: After a successful append to a log that ends in a complete line, the log holds the earlier runs
  unchanged and the new run, stamped with time and throughput, as the newest.\<close>

theorem append_read_back:
  assumes "append width env r l = (None, l')" and "typed_run r" and "bounded_width width"
    and "closed_logger l" and "contents width l = Some runs" and "readable env'" and "0 < n"
  shows "read_newest_page width env' n l' =
    Inr (take (nat n) (stamp env r # rev runs), Suc (length runs))"
proof -
  have "contents width l' = Some (runs @ [stamp env r])"
    using assms typed_stamp by (intro append_ok(1)) (auto simp: bounded_width_def)
  then have "read_all_unlocked width env' l' = Inr (runs @ [stamp env r])"
    by (rule read_all_contents [OF assms(6)])
  with assms(7) show ?thesis by (auto simp: read_newest_page_def reverse_rev Let_def)
qed

definition log_calm :: log_env where
  "log_calm = \<lparr>lg_fails = (\<lambda>_. False), lg_cut = 0, lg_now = 63800000000000000000\<rparr>"

definition no_log :: logger where
  "no_log = \<lparr>lf_main = None, lf_temp = None\<rparr>"

lemma portable_typed:
  assumes "run_portable r" and "\<And>f s. get_field f r = VStr s \<Longrightarrow> length s \<le> 4096"
  shows "typed_run r"
  unfolding typed_run_def
proof
  fix f
  have "portable (get_field f r)" using assms(1) by (simp add: run_portable_def list_all_iff set_run_fields)
  then show "typed_val (get_field f r)" using assms(2) [of f]
    by (cases "get_field f r") (auto elim: portable.elims)
qed

lemma typed_sample_run [simp]: "typed_run sample_run"
proof (rule portable_typed)
  show "length s \<le> 4096" if "get_field f sample_run = VStr s" for f s
    using that by (cases f) (auto simp: sample_run_def zero_run_def)
qed simp

lemma bounded_width_const: "bounded_width (\<lambda>_. 200)"
  by (simp add: bounded_width_def fits_def scanner_max_tokens_def)

lemma no_log_simps [simp]: "closed_logger no_log" "contents width no_log = Some []"
  by (simp_all add: no_log_def closed_logger_def contents_def)

lemma log_calm_simps [simp]: "readable log_calm" "\<not> lg_fails log_calm op"
  by (simp_all add: readable_def log_calm_def)

lemma append_calm:
  assumes "run_portable (stamp log_calm r)"
  shows "fst (append width log_calm r l) = None"
proof -
  obtain j where "marshal_run (stamp log_calm r) = Some j" using assms by (rule marshal_unmarshal)
  then show ?thesis by (simp add: append_def append_unlocked_def Let_def)
qed

lemma sample_throughput: "throughput sample_run = Fin 1"
proof -
  have "round64 1 = Fin 1" "round64 1048576 = Fin 1048576"
    using is_f64_small by (simp_all add: is_f64_def)
  then show ?thesis
    by (simp add: throughput_def bulk_duration_ms_def sample_run_def zero_run_def Let_def of_int64_def bytes_per_mib_def)
qed

lemma sample_stamp: "stamp log_calm sample_run = sample_run\<lparr>r_throughput := Fin 1\<rparr>"
proof -
  have "r_timestamp sample_run \<noteq> 0" by (simp add: sample_run_def)
  then show ?thesis by (simp add: stamp_def Let_def sample_throughput)
qed

lemma sample_stamp_portable [simp]: "run_portable (stamp log_calm sample_run)"
  unfolding sample_stamp run_portable_def list_all_iff
proof
  fix f
  have "portable (get_field f sample_run)" using sample_run_portable
    by (simp add: run_portable_def list_all_iff set_run_fields)
  then show "portable (get_field f (sample_run\<lparr>r_throughput := Fin 1\<rparr>))" by (cases f) simp_all
qed

lemma append_read_back_witness:
  "read_newest_page (\<lambda>_. 200) log_calm 5 (snd (append (\<lambda>_. 200) log_calm sample_run no_log))
     = Inr ([stamp log_calm sample_run], 1)"
proof -
  let ?a = "append (\<lambda>_. 200) log_calm sample_run no_log"
  have "?a = (None, snd ?a)" by (metis append_calm prod.collapse sample_stamp_portable)
  from append_read_back [OF this _ bounded_width_const, of "[]" log_calm 5] show ?thesis by simp
qed

text \<open>C14: On a log that is empty or ends in a complete line, an append that fails at any point, the disk filling up
  in the middle of the line included, loses none of the runs already in the log: they read back as before,
  followed at most by the new run.  (What it leaves may be a line without its newline, which the next append
  continues: \<open>torn_line_swallows_next\<close>.)\<close>

theorem failed_append_keeps_runs:
  assumes "append width env r l = (Some e, l')" and "typed_run r" and "bounded_width width"
    and "closed_logger l" and "contents width l = Some runs" and "readable env'"
  shows "read_all_unlocked width env' l' \<in> {Inr runs, Inr (runs @ [stamp env r])}"
proof -
  have "contents width l' \<in> {Some runs, Some (runs @ [stamp env r])}"
    using assms typed_stamp by (intro append_error) (auto simp: bounded_width_def)
  with read_all_contents [OF assms(6)] show ?thesis by blast
qed

definition log_torn :: log_env where
  "log_torn = log_calm\<lparr>lg_fails := (\<lambda>op. op = WriteLog), lg_cut := 37\<rparr>"

definition one_run :: logger where
  "one_run = snd (append (\<lambda>_. 200) log_calm sample_run no_log)"

lemma one_run_simps [simp]:
  "closed_logger one_run" "contents (\<lambda>_. 200) one_run = Some [stamp log_calm sample_run]"
proof -
  have a: "append (\<lambda>_. 200) log_calm sample_run no_log = (None, one_run)"
    unfolding one_run_def by (metis append_calm prod.collapse sample_stamp_portable)
  have "fits (\<lambda>_. 200) j" for j by (simp add: fits_def scanner_max_tokens_def)
  with append_ok [OF a typed_stamp, of "[]"]
  show "closed_logger one_run" "contents (\<lambda>_. 200) one_run = Some [stamp log_calm sample_run]" by simp_all
qed

lemma failed_append_keeps_runs_witness:
  "read_all_unlocked (\<lambda>_. 200) log_calm (snd (append (\<lambda>_. 200) log_torn sample_run one_run))
     \<in> {Inr [stamp log_calm sample_run], Inr [stamp log_calm sample_run, stamp log_torn sample_run]}"
proof -
  let ?a = "append (\<lambda>_. 200) log_torn sample_run one_run"
  have "stamp log_torn sample_run = stamp log_calm sample_run"
    by (simp add: stamp_def log_torn_def log_calm_def)
  then obtain j where "marshal_run (stamp log_torn sample_run) = Some j"
    using marshal_unmarshal [OF sample_stamp_portable] by metis
  then obtain e where "?a = (Some e, snd ?a)"
    by (simp add: append_def append_unlocked_def log_torn_def Let_def)
  from failed_append_keeps_runs [OF this _ bounded_width_const, of "[stamp log_calm sample_run]" log_calm]
  show ?thesis by simp
qed

text \<open>C6: A merge of client timings that succeeds changes exactly one run, the only one that matches the
  request, leaves everything the server measured of it alone, and the log reads back as the earlier runs with that run
  replaced.\<close>

theorem merge_updates_unique_match:
  assumes "merge_client_timings width env name operation p meta l = (Inr r, l')"
    and "log_ok width l" and "bounded_width width" and "typed_phases p" and "typed_meta meta" and "readable env'"
  shows "\<exists>runs i. contents width l = Some runs \<and> i < length runs
      \<and> matches_run name operation meta (runs ! i)
      \<and> (\<forall>k<length runs. k \<noteq> i \<longrightarrow> \<not> matches_run name operation meta (runs ! k))
      \<and> (\<forall>f. \<not> client_field f \<longrightarrow> get_field f r = get_field f (runs ! i))
      \<and> r_ttfb_ms r = ttfb_ms p \<and> r_transfer_ms r = transfer_ms p \<and> r_client_total_ms r = client_total_ms p
      \<and> r_throughput r = throughput r
      \<and> read_all_unlocked width env' l' = Inr (runs[i := r])"
proof -
  from assms(1) obtain runs i where m: "contents width l = Some runs" "find_merge_index runs name operation meta = Inr i"
    "r = merged p meta (runs ! i)" "rewrite_unlocked width env (runs[i := r]) l = (None, l')"
    by (rule merge_ok)
  have i: "i < length runs" using m(2) by (simp add: find_merge_index_iff)
  have "list_all typed_run runs" using assms(2) m(1) by (auto simp: log_ok_def)
  then have typed: "list_all typed_run (runs[i := r])"
    using i m(3) typed_merged [OF _ assms(4,5)] set_update_subset_insert by (fastforce simp: list_all_iff)
  have "contents width l' = Some (runs[i := r])"
    using typed assms(3) by (intro rewrite_contents(1) [OF m(4)]) (auto simp: bounded_width_def list_all_iff)
  then have "read_all_unlocked width env' l' = Inr (runs[i := r])" by (rule read_all_contents [OF assms(6)])
  moreover have "r_ttfb_ms r = ttfb_ms p \<and> r_transfer_ms r = transfer_ms p \<and> r_client_total_ms r = client_total_ms p
      \<and> r_throughput r = throughput r"
    unfolding m(3) by (simp add: merged_def apply_client_meta_def apply_client_phases_def Let_def)
  ultimately show ?thesis
    using m(1,2) merged_server_field unfolding find_merge_index_iff m(3) by blast
qed

text \<open>C15: A merge that fails for any reason, in the middle of rewriting the file included, leaves the log as
  it was; and unless the temporary file cannot be removed it leaves no new temporary file behind.\<close>

theorem failed_merge_keeps_log:
  assumes "merge_client_timings width env name operation p meta l = (Inl e, l')"
  shows "lf_main l' = lf_main l \<and> (\<not> lg_fails env RemoveLogTemp \<longrightarrow> lf_temp l' \<in> {lf_temp l, None})"
  using merge_error [OF assms] by blast


definition edge_meta :: client_timing_meta where
  "edge_meta = \<lparr>m_route_mode = ''edge'', m_experiment_id = ''e1'', m_sample_index = 2\<rparr>"

definition flat_phases :: phases where
  "flat_phases = \<lparr>dns_ms = Fin 1, tcp_connect_ms = Fin 1, tls_handshake_ms = Fin 0, redirect_ms = Fin 0,
     ttfb_ms = Fin 1000, transfer_ms = Fin 1, client_total_ms = Fin 1000\<rparr>"

lemma log_quiet_calm [simp]: "log_quiet log_calm"
  by (simp add: log_quiet_def log_calm_def)

lemma flat_typed [simp]: "typed_phases flat_phases" "typed_meta edge_meta"
  by (simp_all add: typed_phases_def flat_phases_def typed_meta_def edge_meta_def valid_utf8_ascii int64_def)

lemma one_run_ok [simp]: "log_ok (\<lambda>_. 200) one_run"
  by (simp add: log_ok_def typed_stamp)

lemma one_run_matches: "matches_run name ''upload'' edge_meta (stamp log_calm sample_run)"
  unfolding sample_stamp by (simp add: matches_run_def edge_meta_def sample_run_def)


lemma sample_merged_throughput: "throughput (client_update flat_phases edge_meta (stamp log_calm sample_run)) = Fin 1"
proof -
  have "round64 1 = Fin 1" "round64 1048576 = Fin 1048576"
    using is_f64_small by (simp_all add: is_f64_def)
  then show ?thesis
    unfolding sample_stamp by (simp add: throughput_def bulk_duration_ms_def sample_run_def zero_run_def Let_def of_int64_def
        bytes_per_mib_def apply_client_meta_def apply_client_phases_def flat_phases_def edge_meta_def)
qed

lemma sample_merged: "merged flat_phases edge_meta (stamp log_calm sample_run) =
    (stamp log_calm sample_run)\<lparr>r_dns_ms := Fin 1, r_tcp_connect_ms := Fin 1, r_ttfb_ms := Fin 1000,
      r_transfer_ms := Fin 1, r_client_total_ms := Fin 1000, r_route_mode := ''edge''\<rparr>"
  using sample_merged_throughput unfolding sample_stamp
  by (simp add: merged_def Let_def apply_client_meta_def apply_client_phases_def flat_phases_def edge_meta_def
      sample_run_def zero_run_def)

lemma sample_merged_portable [simp]: "run_portable (merged flat_phases edge_meta (stamp log_calm sample_run))"
  unfolding sample_merged run_portable_def list_all_iff
proof
  fix f
  have "portable (get_field f (stamp log_calm sample_run))" using sample_stamp_portable
    by (simp add: run_portable_def list_all_iff set_run_fields del: sample_stamp_portable)
  then show "portable (get_field f ((stamp log_calm sample_run)\<lparr>r_dns_ms := Fin 1, r_tcp_connect_ms := Fin 1,
      r_ttfb_ms := Fin 1000, r_transfer_ms := Fin 1, r_client_total_ms := Fin 1000, r_route_mode := ''edge''\<rparr>))"
    by (cases f) (simp_all add: valid_utf8_ascii)
qed


lemma sample_merge:
  obtains r l' where "merge_client_timings (\<lambda>_. 200) log_calm ''a'' ''upload'' flat_phases edge_meta one_run = (Inr r, l')"
proof -
  have idx: "find_merge_index [stamp log_calm sample_run] ''a'' ''upload'' edge_meta = Inr 0"
    by (simp add: find_merge_index_iff one_run_matches)
  have "snd (write_runs (\<lambda>_. 200) log_calm 0 [merged flat_phases edge_meta (stamp log_calm sample_run)]) = None"
    by (rule write_runs_None) simp_all
  then have "fst (rewrite_unlocked (\<lambda>_. 200) log_calm [merged flat_phases edge_meta (stamp log_calm sample_run)] one_run) = None"
    by (simp add: rewrite_unlocked_def Let_def case_prod_beta)
  with idx that show thesis
    by (cases "rewrite_unlocked (\<lambda>_. 200) log_calm [merged flat_phases edge_meta (stamp log_calm sample_run)] one_run")
       (simp add: merge_client_timings_def read_all_contents [OF log_calm_simps(1) one_run_simps(2)])
qed

lemma merge_updates_unique_match_witness:
  "\<exists>r l'. merge_client_timings (\<lambda>_. 200) log_calm ''a'' ''upload'' flat_phases edge_meta one_run = (Inr r, l')
     \<and> r_ttfb_ms r = Fin 1000 \<and> read_all_unlocked (\<lambda>_. 200) log_calm l' = Inr [r]"
proof -
  obtain r l' where m: "merge_client_timings (\<lambda>_. 200) log_calm ''a'' ''upload'' flat_phases edge_meta one_run = (Inr r, l')"
    by (rule sample_merge)
  from merge_updates_unique_match [OF m one_run_ok bounded_width_const flat_typed log_calm_simps(1)] m
  show ?thesis by (auto simp: flat_phases_def)
qed

lemma failed_merge_keeps_log_witness:
  "lf_main (snd (merge_client_timings (\<lambda>_. 200) log_calm ''x'' ''download'' flat_phases edge_meta one_run)) = lf_main one_run"
proof -
  have "find_merge_index [stamp log_calm sample_run] ''x'' ''download'' edge_meta = Inl (Sentinel ErrNoMatchingRun)"
    unfolding sample_stamp by (simp add: find_merge_index_result matches_run_def sample_run_def)
  then obtain e where "merge_client_timings (\<lambda>_. 200) log_calm ''x'' ''download'' flat_phases edge_meta one_run
      = (Inl e, one_run)"
    by (simp add: merge_client_timings_def read_all_contents [OF log_calm_simps(1) one_run_simps(2)])
  with failed_merge_keeps_log [OF this] show ?thesis by simp
qed

text \<open>C17: Posting the same timings twice is posting them once: after a merge that succeeded, the same
  merge selects the same run again, returns the same run, and leaves the log with the same content.\<close>

theorem merge_idempotent:
  assumes "merge_client_timings width env name operation p meta l = (Inr r, l1)"
    and "log_ok width l" and "bounded_width width" and "typed_phases p" and "typed_meta meta"
    and "merge_client_timings width env2 name operation p meta l1 = (r2, l2)" and "log_quiet env2"
  shows "r2 = Inr r \<and> contents width l2 = contents width l1"
proof -
  from assms(1) obtain runs i where m: "contents width l = Some runs" "find_merge_index runs name operation meta = Inr i"
    "r = merged p meta (runs ! i)" "rewrite_unlocked width env (runs[i := r]) l = (None, l1)"
    by (rule merge_ok)
  have i: "i < length runs" "matches_run name operation meta (runs ! i)"
    "\<forall>k<length runs. k \<noteq> i \<longrightarrow> \<not> matches_run name operation meta (runs ! k)"
    using m(2) by (simp_all add: find_merge_index_iff)
  have "list_all typed_run runs" using assms(2) m(1) by (auto simp: log_ok_def)
  then have typed: "list_all typed_run (runs[i := r])"
    using i m(3) typed_merged [OF _ assms(4,5)] set_update_subset_insert by (fastforce simp: list_all_iff)
  then have fits: "\<And>r' j. r' \<in> set (runs[i := r]) \<Longrightarrow> marshal_run r' = Some j \<Longrightarrow> fits width j"
    using assms(3) by (auto simp: bounded_width_def list_all_iff)
  have c1: "contents width l1 = Some (runs[i := r])" by (rule rewrite_contents(1) [OF m(4) typed fits])
  have idx: "find_merge_index (runs[i := r]) name operation meta = Inr i"
    using i matches_merged m(3) by (simp add: find_merge_index_iff)
  have same: "merged p meta (runs[i := r] ! i) = r" using i m(3) by (simp add: merged_merged)
  obtain ts where "write_runs width env 0 (runs[i := r]) = (ts, None)" using m(4) by (auto elim: rewrite_ok)
  then have "list_all (\<lambda>r. marshal_run r \<noteq> None) (runs[i := r])" by (rule write_runs_marshals)
  then have "list_all run_portable (runs[i := r])"
    using typed typed_marshal_portable by (fastforce simp: list_all_iff)
  then have "snd (write_runs width env2 0 (runs[i := r])) = None"
    using assms(7) by (intro write_runs_None) (simp_all add: log_quiet_def)
  then have "fst (rewrite_unlocked width env2 (runs[i := r]) l1) = None"
    using assms(7) by (simp add: rewrite_unlocked_def log_quiet_def Let_def case_prod_beta)
  then obtain l3 where l3: "rewrite_unlocked width env2 (runs[i := r]) l1 = (None, l3)" by (metis prod.collapse)
  then have "r2 = Inr r \<and> l2 = l3"
    using assms(6) idx same
    by (simp add: merge_client_timings_def read_all_contents [OF log_quiet_readable [OF assms(7)] c1] Let_def)
  moreover have "contents width l3 = Some (runs[i := r])" by (rule rewrite_contents(1) [OF l3 typed fits])
  ultimately show ?thesis using c1 by simp
qed

lemma merge_idempotent_witness:
  "\<exists>r l1 l2. merge_client_timings (\<lambda>_. 200) log_calm ''a'' ''upload'' flat_phases edge_meta one_run = (Inr r, l1)
     \<and> merge_client_timings (\<lambda>_. 200) log_calm ''a'' ''upload'' flat_phases edge_meta l1 = (Inr r, l2)"
proof -
  obtain r l1 where m: "merge_client_timings (\<lambda>_. 200) log_calm ''a'' ''upload'' flat_phases edge_meta one_run = (Inr r, l1)"
    by (rule sample_merge)
  obtain r2 l2 where m2: "merge_client_timings (\<lambda>_. 200) log_calm ''a'' ''upload'' flat_phases edge_meta l1 = (r2, l2)"
    by fastforce
  from merge_idempotent [OF m one_run_ok bounded_width_const flat_typed m2 log_quiet_calm] m m2 show ?thesis by auto
qed

text \<open>C5: The log only grows.  From a log that ends in a complete line, along any sequence of appends and merges
  of ordinary values, of which any calls may fail as long as no appended line is cut short, the log stays readable, and
  what the server measured of the runs it held at the start is still there, in the same order and at its front.\<close>

theorem log_append_only:
  assumes "bounded_width width" and "closed_logger l"
    and "contents width l = Some runs" and "list_all typed_run runs"
    and "list_all log_action_ok actions" and "readable env"
  shows "\<exists>runs'. read_all_unlocked width env (fold (log_step width) actions l) = Inr runs'
      \<and> length runs \<le> length runs'
      \<and> map measured (take (length runs) runs') = map measured runs"
proof -
  have "log_inv width (map measured runs) l"
    using assms(1-4) by (simp add: log_inv_def prefix_of_def)
  then have "log_inv width (map measured runs) (fold (log_step width) actions l)"
    using assms(5) by (rule run_log.run_inv)
  then show ?thesis using assms(6) by (rule log_inv_read)
qed

lemma log_append_only_witness:
  "\<exists>runs'. read_all_unlocked (\<lambda>_. 200) log_calm
       (fold (log_step (\<lambda>_. 200)) [Append log_calm sample_run, Merge log_calm ''a'' ''upload'' flat_phases edge_meta] one_run) = Inr runs'
     \<and> map measured (take 1 runs') = [measured (stamp log_calm sample_run)]"
  using log_append_only [OF bounded_width_const one_run_simps, of
      "[Append log_calm sample_run, Merge log_calm ''a'' ''upload'' flat_phases edge_meta]" log_calm]
  by (auto simp: typed_stamp)

text \<open>A page of results is the newest runs first, at most \<open>limit\<close> of them, with the number of all
  runs; the in-place swapping loop is a reversal.\<close>

theorem newest_page:
  assumes "contents width l = Some runs" and "readable env" and "0 < limit"
  shows "read_newest_page width env limit l = Inr (rev (drop (length runs - nat limit) runs), length runs)"
  using assms(3) read_all_contents [OF assms(2,1)]
  by (auto simp: read_newest_page_def Let_def reverse_rev take_rev)

lemma newest_page_witness:
  "read_newest_page (\<lambda>_. 200) log_calm 10 one_run = Inr ([stamp log_calm sample_run], 1)"
  using newest_page [OF one_run_simps(2) log_calm_simps(1), of 10] by simp

lemma throughput_cong:
  "r_bytes r = r_bytes r' \<Longrightarrow> bulk_duration_ms r = bulk_duration_ms r' \<Longrightarrow> throughput r = throughput r'"
  by (simp add: throughput_def Let_def)

lemma near_bounds:
  fixes x r :: rat
  assumes "0 < x" and "\<bar>r - x\<bar> \<le> \<bar>x\<bar> / 2 ^ 53"
  shows "x / 2 \<le> r" and "r \<le> 2 * x"
proof -
  have "r - x \<le> x / 2 ^ 53" "x - r \<le> x / 2 ^ 53"
    using assms(2) unfolding abs_of_pos [OF assms(1)] by (drule_tac abs_le_D1, linarith, drule_tac abs_le_D2, linarith)
  moreover have "x / 2 ^ 53 \<le> x / 2" using assms(1) by simp
  ultimately show "x / 2 \<le> r" and "r \<le> 2 * x" using assms(1) by linarith+
qed

text \<open>A positive byte count in MiB is a positive finite number.\<close>

lemma mib_positive:
  assumes "0 < n" and "int64 n"
  shows "\<exists>q. fdiv (of_int64 n) bytes_per_mib = Fin q \<and> 0 < q"
proof -
  have tiny: "pow2 (- 1022) \<le> pow2 (- 22)" by (rule pow2_mono) simp
  have small: "pow2 (- 22) = 1 / 4194304" by (simp add: pow2_def power_int_def power_one_over)
  have n: "1 \<le> rat_of_int n" "rat_of_int n \<le> 2 ^ 63"
    using assms by (simp, simp add: int64_def)
  then obtain r where r: "round64 (of_int n) = Fin r" "\<bar>r - of_int n\<bar> \<le> \<bar>rat_of_int n\<bar> / 2 ^ 53"
    using round64_close [of "of_int n"] tiny small by fastforce
  then have bounds: "1 / 2 \<le> r" "r \<le> 2 ^ 64" using near_bounds [OF _ r(2)] n by simp_all
  then obtain q where q: "round64 (r / 1048576) = Fin q" "\<bar>q - r / 1048576\<bar> \<le> \<bar>r / 1048576\<bar> / 2 ^ 53"
    using round64_close [of "r / 1048576"] tiny small by fastforce
  moreover have "0 < q" using near_bounds(1) [OF _ q(2)] bounds by simp
  ultimately show ?thesis using r(1) by (simp add: of_int64_def bytes_per_mib_def)
qed

lemma fdiv_nonneg:
  assumes "0 < q" and "y \<noteq> NaN" and "fle (Fin 0) y"
  shows "fle (Fin 0) (fdiv (Fin q) y)"
  using assms by (cases y) (auto simp: inf_of_sign_def intro: round64_sign)

text \<open>The throughput of an upload does not depend on the client's download interval, nor that of a
  download on its time to first byte; and for any byte count and any total time that is a number
  it is neither negative nor a NaN.\<close>

theorem throughput_sane:
  assumes "r_total_ms r \<noteq> NaN" and "int64 (r_bytes r)"
  shows "fle (Fin 0) (throughput r)
      \<and> (r_operation r = ''upload'' \<longrightarrow> throughput (r\<lparr>r_transfer_ms := x\<rparr>) = throughput r)
      \<and> (r_operation r = ''download'' \<longrightarrow> throughput (r\<lparr>r_ttfb_ms := x\<rparr>) = throughput r)"
proof (intro conjI impI)
  show "throughput (r\<lparr>r_transfer_ms := x\<rparr>) = throughput r" if "r_operation r = ''upload''"
    by (rule throughput_cong) (use that in \<open>simp_all add: bulk_duration_ms_def\<close>)
  show "throughput (r\<lparr>r_ttfb_ms := x\<rparr>) = throughput r" if "r_operation r = ''download''"
    by (rule throughput_cong) (use that in \<open>simp_all add: bulk_duration_ms_def\<close>)
  have dur: "bulk_duration_ms r \<noteq> NaN"
    using assms(1) by (auto simp: bulk_duration_ms_def)
  show "fle (Fin 0) (throughput r)"
  proof (cases "0 < r_bytes r \<and> \<not> fle (bulk_duration_ms r) (Fin 0)")
    case True
    then obtain q where q: "fdiv (of_int64 (r_bytes r)) bytes_per_mib = Fin q" "0 < q"
      using mib_positive assms(2) by blast
    have "fdiv (bulk_duration_ms r) (Fin 1000) \<noteq> NaN \<and> fle (Fin 0) (fdiv (bulk_duration_ms r) (Fin 1000))"
      using True dur by (cases "bulk_duration_ms r") (auto intro: round64_sign)
    with q True show ?thesis by (simp add: throughput_def Let_def fdiv_nonneg)
  next
    case False
    then show ?thesis by (auto simp: throughput_def Let_def)
  qed
qed

lemma throughput_sane_witness:
  "fle (Fin 0) (throughput sample_run) \<and> throughput (sample_run\<lparr>r_transfer_ms := Fin 3\<rparr>) = throughput sample_run"
  using throughput_sane [of sample_run "Fin 3"] by (simp add: sample_run_def zero_run_def int64_def)

section \<open>Observations\<close>

text \<open>
  A line that was cut short has no line end, so the next run, though its append succeeds,
  is written into the same line and is not read back.
\<close>

lemma torn_line_swallows_next:
  assumes "marshal_run (stamp env r) = Some j" and "\<not> lg_fails env OpenAppend" "\<not> lg_fails env WriteLog"
    and "lf_main l = Some [Fragment n]" and "0 < n" and "n + width j < scanner_max_tokens"
  shows "contents width (snd (append width env r l)) = Some []"
  using assms by (auto simp: append_def append_unlocked_def contents_def log_runs_def line_width_def Let_def)

text \<open>The line \<open>null\<close> is not corrupt for \<open>encoding/json\<close>: it reads as a run of zero values.\<close>

lemma null_line_is_a_run: "unmarshal_run JNull = Some zero_run"
  by simp

end
