(* ===== verification/Requestinfo.thy ===== *)
theory Requestinfo
  imports Http Config Results
begin

text \<open>
  Package \<open>internal/requestinfo\<close> (\<open>info.go\<close>): how a request reached the server, reported by
  \<open>/api/info\<close> and recorded with every run.

  A server certificate is its DER chain and the parsed leaf, when one is attached.
  \<open>x509.ParseCertificate\<close> is the argument \<open>parse_cert\<close>; the cipher-suite tables of
  \<open>crypto/tls\<close> are the arguments \<open>secure\<close> and \<open>insecure\<close>, as in the configuration.
\<close>

section \<open>Certificates\<close>

text \<open>
  The public keys that \<open>publicKeyMeta\<close> distinguishes: RSA with the bit length of its modulus,
  ECDSA with size and name of its curve when it has one, Ed25519 with its length in bytes,
  and any other, with the name of its algorithm unless that is unknown.
\<close>

datatype public_key =
    RSA int
  | ECDSA "(int \<times> string) option"
  | Ed25519 int
  | OtherKey "string option"

record leaf =
  lf_common_name :: string
  lf_dns_names :: "string list"
  lf_not_after :: int
  lf_key :: public_key

record tls_certificate =
  tc_chain :: "string list"
  tc_leaf :: "leaf option"

definition leaf_from :: "(string \<Rightarrow> leaf option) \<Rightarrow> tls_certificate option \<Rightarrow> leaf option" where
  "leaf_from parse_cert cert =
     (case cert of
        None \<Rightarrow> None
      | Some c \<Rightarrow>
          if tc_chain c = [] then None
          else case tc_leaf c of Some l \<Rightarrow> Some l | None \<Rightarrow> parse_cert (hd (tc_chain c)))"

fun public_key_meta :: "leaf \<Rightarrow> string \<times> int \<times> string" where
  "public_key_meta l =
     (case lf_key l of
        RSA bits \<Rightarrow> (''RSA'', bits, '''')
      | ECDSA (Some (bits, curve)) \<Rightarrow> (''ECDSA'', bits, curve)
      | ECDSA None \<Rightarrow> (''ECDSA'', 0, '''')
      | Ed25519 n \<Rightarrow> (''Ed25519'', n * 8, '''')
      | OtherKey None \<Rightarrow> ('''', 0, '''')
      | OtherKey (Some a) \<Rightarrow> (a, 0, ''''))"

section \<open>Addresses\<close>

definition index_of :: "char \<Rightarrow> string \<Rightarrow> nat option" where
  "index_of c s = (if c \<in> set s then Some (length (takeWhile (\<lambda>d. d \<noteq> c) s)) else None)"

definition last_index_of :: "char \<Rightarrow> string \<Rightarrow> nat option" where
  "last_index_of c s = map_option (\<lambda>i. length s - 1 - i) (index_of c (rev s))"

text \<open>\<open>net.SplitHostPort\<close>; \<open>None\<close> is the error.\<close>

definition split_host_port :: "string \<Rightarrow> (string \<times> string) option" where
  "split_host_port s =
     (case last_index_of CHR '':'' s of
        None \<Rightarrow> None
      | Some i \<Rightarrow>
          (let parts =
             (if hd s = CHR ''['' then
                (case index_of CHR '']'' s of
                   None \<Rightarrow> None
                 | Some stop \<Rightarrow> if stop + 1 = i then Some (take (stop - 1) (drop 1 s), 1, stop + 1) else None)
              else if CHR '':'' \<in> set (take i s) then None
              else Some (take i s, 0, 0))
           in case parts of
                None \<Rightarrow> None
              | Some (host, j, k) \<Rightarrow>
                  if CHR ''['' \<in> set (drop j s) \<or> CHR '']'' \<in> set (drop k s) then None
                  else Some (host, drop (i + 1) s)))"

definition client_addr :: "string \<Rightarrow> string" where
  "client_addr remote = (case split_host_port remote of None \<Rightarrow> remote | Some (host, _) \<Rightarrow> host)"

section \<open>The report\<close>

definition tls_version_name :: "u16 \<Rightarrow> string" where
  "tls_version_name v =
     (if v = version_tls13 then ''TLS 1.3'' else if v = version_tls12 then ''TLS 1.2''
      else if v = 0x0302 then ''TLS 1.1'' else if v = 0x0301 then ''TLS 1.0'' else '''')"

text \<open>\<open>tls.CipherSuiteName\<close>: the name in the tables, or the number in hexadecimal.\<close>

definition hex4 :: "u16 \<Rightarrow> string" where
  "hex4 w = ''0x'' @ map (\<lambda>k. upper_hex (unat (drop_bit k w) mod 16)) [12, 8, 4, 0]"

definition cipher_suite_name :: "suite_table \<Rightarrow> suite_table \<Rightarrow> u16 \<Rightarrow> string" where
  "cipher_suite_name secure insecure i =
     (case List.find (\<lambda>(n, j). j = i) (secure @ insecure) of Some (n, _) \<Rightarrow> n | None \<Rightarrow> hex4 i)"

record request_info =
  ri_tls :: bool
  ri_tls_version :: string
  ri_cipher :: string
  ri_sni :: string
  ri_alpn :: string
  ri_host :: string
  ri_method :: string
  ri_path :: string
  ri_remote_addr :: string
  ri_client_addr :: string
  ri_forwarded_for :: string
  ri_forwarded_proto :: string
  ri_forwarded_host :: string
  ri_server_name :: string
  ri_cert_sans :: "string list"
  ri_cert_not_after :: int
  ri_key_algorithm :: string
  ri_key_size :: int
  ri_key_curve :: string
  ri_hostname :: string

definition fill_cert_fields :: "(string \<Rightarrow> leaf option) \<Rightarrow> tls_certificate option \<Rightarrow> request_info \<Rightarrow> request_info" where
  "fill_cert_fields parse_cert cert i =
     (case leaf_from parse_cert cert of
        None \<Rightarrow> i
      | Some l \<Rightarrow>
          let (alg, bits, curve) = public_key_meta l
          in i\<lparr>ri_server_name := lf_common_name l, ri_cert_sans := lf_dns_names l,
               ri_cert_not_after := lf_not_after l, ri_key_algorithm := alg, ri_key_size := bits,
               ri_key_curve := curve\<rparr>)"

record tls_env =
  te_secure :: suite_table
  te_insecure :: suite_table
  te_parse_cert :: "string \<Rightarrow> leaf option"

definition from_request :: "tls_env \<Rightarrow> request \<Rightarrow> string \<Rightarrow> tls_certificate option \<Rightarrow> request_info" where
  "from_request te r hostname cert =
     (let i = \<lparr>ri_tls = False, ri_tls_version = [], ri_cipher = [], ri_sni = [], ri_alpn = [],
               ri_host = q_host r, ri_method = q_method r,
               ri_path = (case url_path r of None \<Rightarrow> [] | Some p \<Rightarrow> p),
               ri_remote_addr = q_remote r, ri_client_addr = client_addr (q_remote r),
               ri_forwarded_for = header_get r ''X-Forwarded-For'',
               ri_forwarded_proto = header_get r ''X-Forwarded-Proto'',
               ri_forwarded_host = header_get r ''X-Forwarded-Host'',
               ri_server_name = [], ri_cert_sans = [], ri_cert_not_after = 0,
               ri_key_algorithm = [], ri_key_size = 0, ri_key_curve = [], ri_hostname = hostname\<rparr>;
          i1 = (case q_tls r of
                  None \<Rightarrow> i
                | Some cs \<Rightarrow> i\<lparr>ri_tls := True, ri_tls_version := tls_version_name (cs_version cs),
                              ri_cipher := cipher_suite_name (te_secure te) (te_insecure te) (cs_cipher cs),
                              ri_sni := cs_server_name cs, ri_alpn := cs_protocol cs\<rparr>)
      in fill_cert_fields (te_parse_cert te) cert i1)"

text \<open>The JSON form of the report.  A \<open>time.Time\<close> is never omitted.\<close>

definition json_member :: "string \<Rightarrow> bool \<Rightarrow> json option \<Rightarrow> (string \<times> json) list option" where
  "json_member k omit j = (if omit then Some [] else map_option (\<lambda>x. [(k, x)]) j)"

fun members :: "(string \<times> json) list option list \<Rightarrow> (string \<times> json) list option" where
  "members [] = Some []"
| "members (None # ps) = None"
| "members (Some m # ps) = map_option (List.append m) (members ps)"

abbreviation str_member :: "string \<Rightarrow> string \<Rightarrow> (string \<times> json) list option" where
  "str_member k s \<equiv> json_member k False (enc_val (VStr s))"

abbreviation opt_str_member :: "string \<Rightarrow> string \<Rightarrow> (string \<times> json) list option" where
  "opt_str_member k s \<equiv> json_member k (s = []) (enc_val (VStr s))"

definition marshal_info :: "request_info \<Rightarrow> json option" where
  "marshal_info i = map_option JObj (members
     [json_member ''tls'' False (enc_val (VBool (ri_tls i))),
      opt_str_member ''tls_version'' (ri_tls_version i), opt_str_member ''cipher'' (ri_cipher i),
      opt_str_member ''sni'' (ri_sni i), opt_str_member ''alpn'' (ri_alpn i),
      str_member ''host'' (ri_host i), str_member ''method'' (ri_method i), str_member ''path'' (ri_path i),
      str_member ''remote_addr'' (ri_remote_addr i), str_member ''client_addr'' (ri_client_addr i),
      opt_str_member ''x_forwarded_for'' (ri_forwarded_for i),
      opt_str_member ''x_forwarded_proto'' (ri_forwarded_proto i),
      opt_str_member ''x_forwarded_host'' (ri_forwarded_host i),
      opt_str_member ''server_cert_cn'' (ri_server_name i),
      json_member ''server_cert_sans'' (ri_cert_sans i = []) (Some (JArr (map (\<lambda>s. JStr (utf8_fix s)) (ri_cert_sans i)))),
      json_member ''server_cert_not_after'' False (enc_val (VTime (ri_cert_not_after i))),
      opt_str_member ''server_cert_key_algorithm'' (ri_key_algorithm i),
      json_member ''server_cert_key_size'' (ri_key_size i = 0) (enc_val (VInt (ri_key_size i))),
      opt_str_member ''server_cert_curve'' (ri_key_curve i), opt_str_member ''hostname'' (ri_hostname i)])"

section \<open>Lemmas\<close>

lemma index_of_append: "c \<notin> set a \<Longrightarrow> index_of c (a @ c # b) = Some (length a)"
  by (auto simp: index_of_def takeWhile_append)

lemma last_index_of_append: "c \<notin> set b \<Longrightarrow> last_index_of c (a @ c # b) = Some (length a)"
  using index_of_append [of c "rev b" "rev a"] by (simp add: last_index_of_def)

lemma split_host_port_plain:
  assumes "host \<noteq> []" and "CHR '':'' \<notin> set (host @ port)" and "CHR ''['' \<notin> set (host @ port)"
    and "CHR '']'' \<notin> set (host @ port)"
  shows "split_host_port (host @ CHR '':'' # port) = Some (host, port)"
proof -
  have "hd (host @ CHR '':'' # port) \<noteq> CHR ''[''" using assms by (cases host) auto
  then show ?thesis
    using assms last_index_of_append [of "CHR '':''" port host] by (simp add: split_host_port_def)
qed

lemma split_host_port_bracketed:
  assumes "CHR '':'' \<notin> set port" and "CHR ''['' \<notin> set (host @ port)" and "CHR '']'' \<notin> set (host @ port)"
  shows "split_host_port (CHR ''['' # host @ CHR '']'' # CHR '':'' # port) = Some (host, port)"
proof -
  let ?s = "CHR ''['' # host @ CHR '']'' # CHR '':'' # port"
  have "last_index_of CHR '':'' ?s = Some (length host + 2)"
    using last_index_of_append [of "CHR '':''" port "CHR ''['' # host @ '']''"] assms by simp
  moreover have "index_of CHR '']'' ?s = Some (length host + 1)"
    using index_of_append [of "CHR '']''" "CHR ''['' # host" "CHR '':'' # port"] assms by simp
  ultimately show ?thesis using assms by (simp add: split_host_port_def)
qed

lemma from_request_client_addr: "ri_client_addr (from_request te r h c) = client_addr (q_remote r)"
  by (simp add: from_request_def fill_cert_fields_def Let_def case_prod_beta split: option.splits)

section \<open>Properties\<close>

text \<open>C40: The client address that is reported and logged is the host of the peer of the connection, for
  host names and IPv4 addresses and for bracketed IPv6 addresses, and no request header changes it.\<close>

theorem client_addr_spec:
  assumes "CHR '':'' \<notin> set port" and "CHR ''['' \<notin> set (host @ port)" and "CHR '']'' \<notin> set (host @ port)"
    and "host \<noteq> []"
    and "q_remote r = (if CHR '':'' \<in> set host then CHR ''['' # host @ CHR '']'' # CHR '':'' # port
                       else host @ CHR '':'' # port)"
  shows "ri_client_addr (from_request te (r\<lparr>q_headers := hs\<rparr>) hostname cert) = host"
proof -
  have "client_addr (q_remote r) = host"
    using assms split_host_port_plain [of host port] split_host_port_bracketed [of port host]
    by (cases "CHR '':'' \<in> set host") (simp_all add: client_addr_def)
  then show ?thesis by (simp add: from_request_client_addr)
qed

definition sample_request :: request where
  "sample_request = \<lparr>q_method = ''GET'', q_target = ''/'', q_query = [], q_host = ''bench'', q_remote = ''[fd00::7]:4433'',
     q_headers = [], q_tls = None, q_body = [], q_body_fails = False, q_length = 0, q_meta = None\<rparr>"

lemma client_addr_spec_witness:
  "ri_client_addr (from_request \<lparr>te_secure = [], te_insecure = [], te_parse_cert = (\<lambda>_. None)\<rparr>
     (sample_request\<lparr>q_headers := [(''X-Forwarded-For'', ''1.2.3.4'')]\<rparr>) [] None) = ''fd00::7''"
  by (rule client_addr_spec [where port = "''4433''"]) (simp_all add: sample_request_def)

end
