(* ===== verification/Certs.thy ===== *)
theory Certs
  imports Requestinfo
begin

text \<open>
  Package \<open>internal/certs\<close> (\<open>certs.go\<close>, \<open>tlsconfig.go\<close>): the server certificate, generated on the
  first start or loaded, and the configuration of the TLS listener.

  State: the files, an association list from paths to contents.  Cryptography is the record
  \<open>crypto\<close> of functions: key generation, serial numbers, certificate creation, key and PEM
  encoding, the parsing of key pairs, certificates, PEM bundles and IP addresses.  Nothing is
  assumed of them but where a property says so.  An IP address is represented by its canonical
  text.  The record \<open>file_env\<close> says which file operation fails.
\<close>

section \<open>Files and cryptography\<close>

type_synonym files = "(string \<times> string) list"

text \<open>
  \<open>fe_reread_fails\<close>: the second read of the certificate file fails; \<open>fe_open_fails\<close>: a file cannot
  be opened for writing; \<open>fe_write_cut\<close>: the write of a path fails after that many bytes.
\<close>

record file_env =
  fe_stat_fails :: "string \<Rightarrow> bool"
  fe_read_fails :: "string \<Rightarrow> bool"
  fe_reread_fails :: bool
  fe_mkdir_fails :: "string \<Rightarrow> bool"
  fe_open_fails :: "string \<Rightarrow> bool"
  fe_write_cut :: "string \<Rightarrow> nat option"
  fe_now :: int
  fe_hostname :: "string option"

record cert_template =
  ct_serial :: int
  ct_common_name :: string
  ct_not_before :: int
  ct_not_after :: int
  ct_is_ca :: bool
  ct_server_auth :: bool
  ct_dns_names :: "string list"
  ct_ips :: "string list"

record crypto =
  cr_gen_key :: "nat \<Rightarrow> string option"
  cr_serial :: "nat \<Rightarrow> int option"
  cr_create :: "cert_template \<Rightarrow> cert_template \<Rightarrow> string \<Rightarrow> string \<Rightarrow> string option"
  cr_marshal_key :: "string \<Rightarrow> string option"
  cr_pem :: "string \<Rightarrow> string \<Rightarrow> string"
  cr_key_pair :: "string \<Rightarrow> string \<Rightarrow> tls_certificate option"
  cr_parse_cert :: "string \<Rightarrow> leaf option"
  cr_pem_certs :: "string \<Rightarrow> string list"
  cr_parse_ip :: "string \<Rightarrow> string option"

record material =
  ma_certificate :: tls_certificate
  ma_ca_pem :: string
  ma_cert_pem :: string
  ma_generated :: bool

type_synonym cert_error = "unit gerror"

definition cert_validity_days :: int where "cert_validity_days = 365"

definition hours :: "int \<Rightarrow> int" where "hours n = n * 3600 * 10 ^ 9"

definition pem_cert_type :: string where "pem_cert_type = ''CERTIFICATE''"
definition pem_key_type :: string where "pem_key_type = ''EC PRIVATE KEY''"

section \<open>Reading and writing\<close>

definition read_file :: "file_env \<Rightarrow> files \<Rightarrow> string \<Rightarrow> string option" where
  "read_file env fs path = (if fe_read_fails env path then None else map_of fs path)"

text \<open>The second component of the result tells \<open>os.ErrNotExist\<close> from other errors.\<close>

definition read_optional :: "file_env \<Rightarrow> files \<Rightarrow> string \<Rightarrow> cert_error + string" where
  "read_optional env fs path =
     (case map_of fs path of
        None \<Rightarrow> if fe_read_fails env path then Inl (Wrapped (''read '' @ path) (SysErr ''read'')) else Inr []
      | Some data \<Rightarrow> if fe_read_fails env path then Inl (Wrapped (''read '' @ path) (SysErr ''read'')) else Inr data)"

definition file_exists :: "file_env \<Rightarrow> files \<Rightarrow> string \<Rightarrow> cert_error + bool" where
  "file_exists env fs path =
     (if fe_stat_fails env path then Inl (Wrapped (''stat '' @ path) (SysErr ''stat''))
      else Inr (map_of fs path \<noteq> None))"

definition write_file :: "file_env \<Rightarrow> string \<Rightarrow> string \<Rightarrow> files \<Rightarrow> cert_error option \<times> files" where
  "write_file env path data fs =
     (if fe_mkdir_fails env path then (Some (Wrapped (''create directory for '' @ path) (SysErr ''mkdir'')), fs)
      else if fe_open_fails env path then (Some (Wrapped (''write '' @ path) (SysErr ''open'')), fs)
      else case fe_write_cut env path of
             Some n \<Rightarrow> (Some (Wrapped (''write '' @ path) (SysErr ''write'')), AList.update path (take n data) fs)
           | None \<Rightarrow> (None, AList.update path data fs))"

definition attach_leaf :: "crypto \<Rightarrow> tls_certificate \<Rightarrow> tls_certificate" where
  "attach_leaf cr c =
     (if tc_chain c = [] \<or> tc_leaf c \<noteq> None then c
      else case cr_parse_cert cr (hd (tc_chain c)) of None \<Rightarrow> c | Some l \<Rightarrow> c\<lparr>tc_leaf := Some l\<rparr>)"

section \<open>Names of the generated certificate\<close>

text \<open>The loop of \<open>splitNames\<close>: DNS names and addresses so far, and the two sets of seen ones.\<close>

fun split_names_loop ::
  "crypto \<Rightarrow> string list \<Rightarrow> string list \<times> string list \<times> string set \<times> string set
     \<Rightarrow> string list \<times> string list \<times> string set \<times> string set" where
  "split_names_loop cr [] acc = acc"
| "split_names_loop cr (n # ns) (dns, ips, seen_dns, seen_ip) =
     (case cr_parse_ip cr n of
        Some ip \<Rightarrow>
          if ip \<in> seen_ip then split_names_loop cr ns (dns, ips, seen_dns, seen_ip)
          else split_names_loop cr ns (dns, ips @ [ip], seen_dns, insert ip seen_ip)
      | None \<Rightarrow>
          if n \<in> seen_dns then split_names_loop cr ns (dns, ips, seen_dns, seen_ip)
          else split_names_loop cr ns (dns @ [n], ips, insert n seen_dns, seen_ip))"

definition split_names :: "crypto \<Rightarrow> file_env \<Rightarrow> string list \<Rightarrow> string list \<times> string list" where
  "split_names cr env names =
     (let (dns, ips, seen_dns, seen_ip) =
            split_names_loop cr names ([], [''127.0.0.1'', ''::1''], {}, {''127.0.0.1'', ''::1''});
          dns1 = (case fe_hostname env of
                    None \<Rightarrow> dns
                  | Some h \<Rightarrow> if h \<noteq> [] \<and> h \<notin> seen_dns then dns @ [h] else dns)
      in (if dns1 = [] then [''localhost''] else dns1, ips))"

section \<open>Loading and generating\<close>

definition load_provided :: "crypto \<Rightarrow> file_env \<Rightarrow> config \<Rightarrow> files \<Rightarrow> cert_error + material" where
  "load_provided cr env cfg fs =
     (case (read_file env fs (tls_cert_file cfg), read_file env fs (tls_key_file cfg)) of
        (Some cert_pem, Some key_pem) \<Rightarrow>
          (case cr_key_pair cr cert_pem key_pem of
             None \<Rightarrow> Inl (Wrapped ''load server certificate'' (SysErr ''x509''))
           | Some pair \<Rightarrow>
               if fe_reread_fails env then Inl (Wrapped ''read server certificate'' (SysErr ''read''))
               else (case read_optional env fs (tls_ca_file cfg) of
                  Inl e \<Rightarrow> Inl (Wrapped ''read CA certificate'' e)
                | Inr ca \<Rightarrow>
                    Inr \<lparr>ma_certificate = attach_leaf cr pair, ma_ca_pem = (if ca = [] then cert_pem else ca),
                         ma_cert_pem = cert_pem, ma_generated = False\<rparr>))
      | _ \<Rightarrow> Inl (Wrapped ''load server certificate'' (SysErr ''read'')))"

definition ca_template :: "file_env \<Rightarrow> int \<Rightarrow> cert_template" where
  "ca_template env serial =
     \<lparr>ct_serial = serial, ct_common_name = ''tlsbench-internal-ca'', ct_not_before = fe_now env - hours 1,
      ct_not_after = fe_now env + hours (cert_validity_days * 24), ct_is_ca = True, ct_server_auth = False,
      ct_dns_names = [], ct_ips = []\<rparr>"

definition server_template :: "crypto \<Rightarrow> file_env \<Rightarrow> config \<Rightarrow> int \<Rightarrow> cert_template" where
  "server_template cr env cfg serial =
     (let (dns, ips) = split_names cr env (tls_dns_names cfg)
      in \<lparr>ct_serial = serial, ct_common_name = ''tlsbench'', ct_not_before = fe_now env - hours 1,
          ct_not_after = fe_now env + hours (cert_validity_days * 24), ct_is_ca = False, ct_server_auth = True,
          ct_dns_names = dns, ct_ips = ips\<rparr>)"

text \<open>The PEM texts of CA, server certificate and server key, or the first error.\<close>

definition generate_pems :: "crypto \<Rightarrow> file_env \<Rightarrow> config \<Rightarrow> cert_error + string \<times> string \<times> string" where
  "generate_pems cr env cfg =
     (case cr_gen_key cr 0 of None \<Rightarrow> Inl (Wrapped ''generate CA key'' (SysErr ''ecdsa''))
      | Some ca_key \<Rightarrow>
     (case cr_gen_key cr 1 of None \<Rightarrow> Inl (Wrapped ''generate server key'' (SysErr ''ecdsa''))
      | Some server_key \<Rightarrow>
     (case cr_serial cr 0 of None \<Rightarrow> Inl (Wrapped ''certificate serial'' (SysErr ''rand''))
      | Some ca_serial \<Rightarrow>
     (case cr_create cr (ca_template env ca_serial) (ca_template env ca_serial) ca_key ca_key of
        None \<Rightarrow> Inl (Wrapped ''create CA certificate'' (SysErr ''x509''))
      | Some ca_der \<Rightarrow>
     (case cr_serial cr 1 of None \<Rightarrow> Inl (Wrapped ''certificate serial'' (SysErr ''rand''))
      | Some server_serial \<Rightarrow>
     (case cr_create cr (server_template cr env cfg server_serial) (ca_template env ca_serial) server_key ca_key of
        None \<Rightarrow> Inl (Wrapped ''create server certificate'' (SysErr ''x509''))
      | Some server_der \<Rightarrow>
     (case cr_marshal_key cr server_key of
        None \<Rightarrow> Inl (Wrapped ''encode server key'' (Wrapped ''marshal EC private key'' (SysErr ''x509'')))
      | Some key_der \<Rightarrow>
          Inr (cr_pem cr pem_cert_type ca_der, cr_pem cr pem_cert_type server_der, cr_pem cr pem_key_type key_der))))))))"

definition generate_and_write :: "crypto \<Rightarrow> file_env \<Rightarrow> config \<Rightarrow> files \<Rightarrow> (cert_error + material) \<times> files" where
  "generate_and_write cr env cfg fs =
     (case generate_pems cr env cfg of
        Inl e \<Rightarrow> (Inl e, fs)
      | Inr (ca_pem, cert_pem, key_pem) \<Rightarrow>
          (case write_file env (tls_ca_file cfg) ca_pem fs of
             (Some e, fs1) \<Rightarrow> (Inl e, fs1)
           | (None, fs1) \<Rightarrow>
          (case write_file env (tls_cert_file cfg) cert_pem fs1 of
             (Some e, fs2) \<Rightarrow> (Inl e, fs2)
           | (None, fs2) \<Rightarrow>
          (case write_file env (tls_key_file cfg) key_pem fs2 of
             (Some e, fs3) \<Rightarrow> (Inl e, fs3)
           | (None, fs3) \<Rightarrow>
          (case cr_key_pair cr cert_pem key_pem of
             None \<Rightarrow> (Inl (Wrapped ''parse generated key pair'' (SysErr ''x509'')), fs3)
           | Some pair \<Rightarrow>
               (Inr \<lparr>ma_certificate = attach_leaf cr pair, ma_ca_pem = ca_pem, ma_cert_pem = cert_pem,
                     ma_generated = True\<rparr>, fs3))))))"

definition load_or_generate :: "crypto \<Rightarrow> file_env \<Rightarrow> config \<Rightarrow> files \<Rightarrow> (cert_error + material) \<times> files" where
  "load_or_generate cr env cfg fs =
     (case file_exists env fs (tls_cert_file cfg) of
        Inl e \<Rightarrow> (Inl e, fs)
      | Inr cert_exists \<Rightarrow>
          (case file_exists env fs (tls_key_file cfg) of
             Inl e \<Rightarrow> (Inl e, fs)
           | Inr key_exists \<Rightarrow>
               if cert_exists \<and> key_exists then (load_provided cr env cfg fs, fs)
               else if cert_exists \<noteq> key_exists
               then (Inl (Message (''both '' @ tls_cert_file cfg @ '' and '' @ tls_key_file cfg @ '' must exist, or neither'')), fs)
               else generate_and_write cr env cfg fs))"

section \<open>Listener configuration (tlsconfig.go)\<close>

definition load_client_cas :: "crypto \<Rightarrow> file_env \<Rightarrow> files \<Rightarrow> string \<Rightarrow> cert_error + string list option" where
  "load_client_cas cr env fs path =
     (if trim_space path = [] then Inr None
      else case read_file env fs path of
             None \<Rightarrow> Inl (Wrapped ''read TLS_CLIENT_CA_FILE'' (SysErr ''read''))
           | Some pem \<Rightarrow> if cr_pem_certs cr pem = [] then Inl (Message ''TLS_CLIENT_CA_FILE contains no certificates'')
                         else Inr (Some (cr_pem_certs cr pem)))"

text \<open>A directory entry: its name, whether it is a directory, and its content (\<open>None\<close>: unreadable).\<close>

type_synonym ca_entry = "string \<times> bool \<times> string option"

text \<open>\<open>filepath.Ext\<close> of a name without separators: from the last dot on.\<close>

definition file_ext :: "string \<Rightarrow> string" where
  "file_ext name = (if CHR ''.'' \<in> set name then CHR ''.'' # rev (takeWhile (\<lambda>c. c \<noteq> CHR ''.'') (rev name)) else [])"

fun extra_cas_loop :: "crypto \<Rightarrow> ca_entry list \<Rightarrow> string list \<Rightarrow> cert_error + string list" where
  "extra_cas_loop cr [] pool = Inr pool"
| "extra_cas_loop cr ((name, is_dir, content) # es) pool =
     (if is_dir \<or> to_lower (file_ext name) \<notin> {''.crt'', ''.pem'', ''.cer''} then extra_cas_loop cr es pool
      else case content of
             None \<Rightarrow> Inl (Wrapped (''read extra CA '' @ name) (SysErr ''read''))
           | Some pem \<Rightarrow> extra_cas_loop cr es (pool @ cr_pem_certs cr pem))"

text \<open>The argument \<open>listing\<close> is the result of \<open>os.ReadDir\<close>: the outer \<open>None\<close> is \<open>os.ErrNotExist\<close>, the inner another error.\<close>

definition load_extra_cas :: "crypto \<Rightarrow> ca_entry list option option \<Rightarrow> string \<Rightarrow> cert_error + string list option" where
  "load_extra_cas cr listing dir =
     (if trim_space dir = [] then Inr None
      else case listing of
             None \<Rightarrow> Inr None
           | Some None \<Rightarrow> Inl (Wrapped ''read TLS_CA_DIR'' (SysErr ''readdir''))
           | Some (Some es) \<Rightarrow>
               (case extra_cas_loop cr es [] of
                  Inl e \<Rightarrow> Inl e
                | Inr pool \<Rightarrow> Inr (if pool = [] then None else Some pool)))"

datatype client_auth = NoClientCert | RequireAndVerifyClientCert

record listener_tls =
  lt_min_version :: u16
  lt_certificates :: "tls_certificate list"
  lt_next_protos :: "string list"
  lt_tickets_disabled :: bool
  lt_cipher_suites :: "u16 list"
  lt_client_cas :: "string list option"
  lt_client_auth :: client_auth

definition server_tls_config :: "material \<Rightarrow> string list option \<Rightarrow> config \<Rightarrow> listener_tls" where
  "server_tls_config m client_cas cfg =
     (let c = \<lparr>lt_min_version = (if tls_min_version cfg = 0 then version_tls12 else tls_min_version cfg),
               lt_certificates = [ma_certificate m], lt_next_protos = default_next_protos,
               lt_tickets_disabled = disable_session_tickets cfg, lt_cipher_suites = [],
               lt_client_cas = None, lt_client_auth = NoClientCert\<rparr>;
          c1 = (if tls_cipher_suites cfg \<noteq> [] then c\<lparr>lt_cipher_suites := tls_cipher_suites cfg\<rparr> else c)
      in case client_cas of
           None \<Rightarrow> c1
         | Some pool \<Rightarrow> c1\<lparr>lt_client_cas := Some pool, lt_client_auth := RequireAndVerifyClientCert\<rparr>)"

section \<open>Lemmas\<close>

lemma split_names_loop_inv:
  assumes "split_names_loop cr ns (dns, ips, sd, si) = (dns', ips', sd', si')"
    and "set dns = sd" and "set ips = si" and "distinct dns" and "distinct ips"
  shows "set dns' = sd' \<and> set ips' = si' \<and> distinct dns' \<and> distinct ips' \<and> take (length ips) ips' = ips
    \<and> sd' = sd \<union> {n \<in> set ns. cr_parse_ip cr n = None}
    \<and> si' = si \<union> {ip. \<exists>n\<in>set ns. cr_parse_ip cr n = Some ip}"
  using assms
proof (induction ns arbitrary: dns ips sd si)
  case (Cons n ns)
  show ?case
  proof (cases "cr_parse_ip cr n")
    case None
    show ?thesis
    proof (cases "n \<in> sd")
      case True
      with Cons.IH [of dns ips sd si] Cons.prems None show ?thesis by auto
    next
      case False
      with Cons.IH [of "dns @ [n]" ips "insert n sd" si] Cons.prems None show ?thesis by auto
    qed
  next
    case (Some ip)
    show ?thesis
    proof (cases "ip \<in> si")
      case True
      with Cons.IH [of dns ips sd si] Cons.prems Some show ?thesis by auto
    next
      case False
      from Cons.prems Some False
      have "split_names_loop cr ns (dns, ips @ [ip], sd, insert ip si) = (dns', ips', sd', si')" by simp
      from Cons.IH [OF this] Cons.prems False
      have ih: "set dns' = sd' \<and> set ips' = si' \<and> distinct dns' \<and> distinct ips'
        \<and> take (length (ips @ [ip])) ips' = ips @ [ip]
        \<and> sd' = sd \<union> {n \<in> set ns. cr_parse_ip cr n = None}
        \<and> si' = insert ip si \<union> {ip. \<exists>n\<in>set ns. cr_parse_ip cr n = Some ip}" by simp
      then have "take (length ips) (take (length (ips @ [ip])) ips') = ips" by (metis append_eq_conv_conj)
      then have "take (length ips) ips' = ips" by (simp add: min_def)
      with ih Some show ?thesis by auto
    qed
  qed
qed simp

lemma write_file_ok:
  "write_file env path data fs = (None, fs') \<Longrightarrow> fs' = AList.update path data fs"
  by (auto simp: write_file_def split: if_splits option.splits)

lemma update_lookup [fs_simps]: "map_of (AList.update k v fs) = (map_of fs)(k \<mapsto> v)"
  by (rule update_conv')

lemma generate_and_write_ok:
  assumes "generate_and_write cr env cfg fs = (Inr m, fs')"
  obtains ca cert key pair where "generate_pems cr env cfg = Inr (ca, cert, key)"
    and "map_of fs' = (map_of fs)(tls_ca_file cfg \<mapsto> ca, tls_cert_file cfg \<mapsto> cert, tls_key_file cfg \<mapsto> key)"
    and "cr_key_pair cr cert key = Some pair"
    and "m = \<lparr>ma_certificate = attach_leaf cr pair, ma_ca_pem = ca, ma_cert_pem = cert, ma_generated = True\<rparr>"
  using assms
  by (auto simp: generate_and_write_def fs_simps dest!: write_file_ok split: sum.splits option.splits prod.splits)

lemma generate_pems_pem:
  assumes "generate_pems cr env cfg = Inr (ca, cert, key)"
  shows "\<exists>der. ca = cr_pem cr pem_cert_type der"
  using assms by (auto simp: generate_pems_def split: option.splits)

definition reads_succeed :: "file_env \<Rightarrow> bool" where
  "reads_succeed env \<longleftrightarrow> (\<forall>p. \<not> fe_stat_fails env p \<and> \<not> fe_read_fails env p) \<and> \<not> fe_reread_fails env"

lemma file_exists_quiet: "reads_succeed env \<Longrightarrow> file_exists env fs p = Inr (map_of fs p \<noteq> None)"
  by (simp add: reads_succeed_def file_exists_def)

lemma load_provided_quiet:
  assumes "reads_succeed env" and "map_of fs (tls_cert_file cfg) = Some cert"
    and "map_of fs (tls_key_file cfg) = Some key" and "cr_key_pair cr cert key = Some pair"
  shows "load_provided cr env cfg fs = Inr \<lparr>ma_certificate = attach_leaf cr pair,
      ma_ca_pem = (case map_of fs (tls_ca_file cfg) of None \<Rightarrow> cert | Some ca \<Rightarrow> if ca = [] then cert else ca),
      ma_cert_pem = cert, ma_generated = False\<rparr>"
  using assms by (simp add: reads_succeed_def load_provided_def read_file_def read_optional_def split: option.splits)

lemma load_provided_pair:
  assumes "reads_succeed env" and "map_of fs (tls_cert_file cfg) = Some cert"
    and "map_of fs (tls_key_file cfg) = Some key"
  shows "(\<exists>m. load_provided cr env cfg fs = Inr m) \<longleftrightarrow> cr_key_pair cr cert key \<noteq> None"
  using assms by (auto simp: reads_succeed_def load_provided_def read_file_def read_optional_def split: option.splits)

subsection \<open>Starts that fail\<close>

text \<open>A write leaves the file alone, or a prefix of the data, or all of it.\<close>

lemma write_file_cases:
  assumes "write_file env path data fs = (r, fs')"
  obtains (refused) "r \<noteq> None" "fs' = fs" "fe_mkdir_fails env path \<or> fe_open_fails env path"
  | (cut) n where "r \<noteq> None" "map_of fs' = (map_of fs)(path \<mapsto> take n data)" "fe_write_cut env path = Some n"
  | (written) "r = None" "map_of fs' = (map_of fs)(path \<mapsto> data)"
  using assms by (auto simp: write_file_def update_conv' split: if_splits option.splits)

lemma write_file_frame: "q \<noteq> path \<Longrightarrow> map_of (snd (write_file env path data fs)) q = map_of fs q"
  by (auto simp: write_file_def update_conv' split: option.splits)

lemma generate_and_write_frame:
  assumes "p \<notin> {tls_ca_file cfg, tls_cert_file cfg, tls_key_file cfg}"
  shows "map_of (snd (generate_and_write cr env cfg fs)) p = map_of fs p"
proof -
  have w: "map_of fs2 p = map_of fs1 p"
    if "write_file env q d fs1 = (r, fs2)" "q \<in> {tls_ca_file cfg, tls_cert_file cfg, tls_key_file cfg}" for q d r fs1 fs2
    using that assms write_file_frame [of p q env d fs1] by auto
  show ?thesis
    by (auto simp: generate_and_write_def dest!: w split: sum.splits option.splits prod.splits)
qed

text \<open>
  What a generation that fails leaves behind where neither file was: neither of the two files, or
  the certificate (perhaps cut) without its key, or both with the key cut or the pair unusable.
\<close>

lemma generate_and_write_failed:
  assumes "generate_and_write cr env cfg fs = (Inl e, fs')"
    and "distinct [tls_ca_file cfg, tls_cert_file cfg, tls_key_file cfg]"
    and "map_of fs (tls_cert_file cfg) = None" and "map_of fs (tls_key_file cfg) = None"
  obtains (neither) "map_of fs' (tls_cert_file cfg) = None" "map_of fs' (tls_key_file cfg) = None"
  | (no_key) "map_of fs' (tls_cert_file cfg) \<noteq> None" "map_of fs' (tls_key_file cfg) = None"
      "fe_write_cut env (tls_cert_file cfg) \<noteq> None \<or> fe_mkdir_fails env (tls_key_file cfg) \<or> fe_open_fails env (tls_key_file cfg)"
  | (both) cert key where "map_of fs' (tls_cert_file cfg) = Some cert" "map_of fs' (tls_key_file cfg) = Some key"
      "fe_write_cut env (tls_key_file cfg) \<noteq> None \<or> cr_key_pair cr cert key = None"
proof (cases "generate_pems cr env cfg")
  case (Inl x)
  with assms neither show thesis by (simp add: generate_and_write_def)
next
  case (Inr pems)
  obtain ca cert key where pems: "pems = (ca, cert, key)" by (metis prod_cases3)
  obtain r1 fs1 where w1: "write_file env (tls_ca_file cfg) ca fs = (r1, fs1)" by fastforce
  obtain r2 fs2 where w2: "write_file env (tls_cert_file cfg) cert fs1 = (r2, fs2)" by fastforce
  obtain r3 fs3 where w3: "write_file env (tls_key_file cfg) key fs2 = (r3, fs3)" by fastforce
  have start: "map_of fs1 (tls_cert_file cfg) = None" "map_of fs1 (tls_key_file cfg) = None"
    using assms(2-4) write_file_frame [of _ "tls_ca_file cfg" env ca fs] w1 by auto
  note g = assms(1) [unfolded generate_and_write_def Inr pems sum.case prod.case w1]
  show thesis
  proof (cases r1)
    case (Some x)
    with g start neither show thesis by simp
  next
    case r1: None
    note g2 = g [unfolded r1 option.case prod.case w2]
    have key2: "map_of fs2 (tls_key_file cfg) = None"
      using start(2) assms(2) write_file_frame [of "tls_key_file cfg" "tls_cert_file cfg" env cert fs1] w2 by auto
    from w2 show thesis
    proof (cases rule: write_file_cases)
      case refused
      with g2 start neither show thesis by auto
    next
      case (cut n)
      with g2 key2 no_key show thesis by auto
    next
      case written
      note g3 = g2 [unfolded written(1) option.case prod.case w3]
      have cert3: "map_of fs3 (tls_cert_file cfg) = Some cert"
        using written(2) assms(2) write_file_frame [of "tls_cert_file cfg" "tls_key_file cfg" env key fs2] w3 by auto
      from w3 show thesis
      proof (cases rule: write_file_cases)
        case refused
        with g3 key2 cert3 no_key show thesis by auto
      next
        case (cut n)
        with g3 cert3 both show thesis by auto
      next
        case written
        with g3 cert3 both show thesis by (auto split: option.splits)
      qed
    qed
  qed
qed

section \<open>Properties\<close>

text \<open>A stand-in for the cryptography, on which the witnesses compute.\<close>

definition stub_crypto :: crypto where
  "stub_crypto = \<lparr>cr_gen_key = (\<lambda>k. Some [char_of k]), cr_serial = (\<lambda>k. Some (int k)),
     cr_create = (\<lambda>t p pub k. Some (ct_common_name t)), cr_marshal_key = Some, cr_pem = (\<lambda>t d. t @ d @ [CHR 0x0A]),
     cr_key_pair = (\<lambda>c k. Some \<lparr>tc_chain = [c], tc_leaf = None\<rparr>), cr_parse_cert = (\<lambda>_. None),
     cr_pem_certs = (\<lambda>p. [p]), cr_parse_ip = (\<lambda>s. if CHR '':'' \<in> set s then Some s else None)\<rparr>"

definition file_calm :: file_env where
  "file_calm = \<lparr>fe_stat_fails = (\<lambda>_. False), fe_read_fails = (\<lambda>_. False), fe_reread_fails = False, fe_mkdir_fails = (\<lambda>_. False), fe_open_fails = (\<lambda>_. False),
     fe_write_cut = (\<lambda>_. None), fe_now = 0, fe_hostname = Some ''pod''\<rparr>"

lemma default_paths_distinct:
  "distinct [tls_ca_file default_config, tls_cert_file default_config, tls_key_file default_config]"
  by code_simp

lemma first_start_succeeds:
  "\<exists>m fs. load_or_generate stub_crypto file_calm default_config [] = (Inr m, fs) \<and> ma_generated m"
  by (simp add: load_or_generate_def file_exists_def generate_and_write_def generate_pems_def write_file_def
      stub_crypto_def file_calm_def split_names_def server_template_def)

text \<open>C30: The generated certificate names the two loopback addresses first, every configured address and
  every configured DNS name exactly once, and the host name of the pod; it always has a DNS name.\<close>

theorem split_names_spec:
  "\<exists>dns ips. split_names cr env names = (dns, ips) \<and> dns \<noteq> [] \<and> distinct dns \<and> distinct ips
     \<and> take 2 ips = [''127.0.0.1'', ''::1'']
     \<and> set ips = {''127.0.0.1'', ''::1''} \<union> {ip. \<exists>n\<in>set names. cr_parse_ip cr n = Some ip}
     \<and> (let wanted = {n \<in> set names. cr_parse_ip cr n = None} \<union> {h. fe_hostname env = Some h \<and> h \<noteq> []}
        in set dns = (if wanted = {} then {''localhost''} else wanted))"
proof -
  obtain dns ips sd si where l: "split_names_loop cr names ([], [''127.0.0.1'', ''::1''], {}, {''127.0.0.1'', ''::1''})
      = (dns, ips, sd, si)" by (metis prod_cases4)
  have inv: "set dns = sd" "set ips = si" "distinct dns" "distinct ips" "take 2 ips = [''127.0.0.1'', ''::1'']"
    "sd = {n \<in> set names. cr_parse_ip cr n = None}"
    "si = {''127.0.0.1'', ''::1''} \<union> {ip. \<exists>n\<in>set names. cr_parse_ip cr n = Some ip}"
    using split_names_loop_inv [OF l] by (simp_all add: numeral_2_eq_2)
  define wanted where "wanted = {n \<in> set names. cr_parse_ip cr n = None} \<union> {h. fe_hostname env = Some h \<and> h \<noteq> []}"
  obtain d where d: "set d = wanted" "distinct d"
    "split_names cr env names = (if d = [] then [''localhost''] else d, ips)"
  proof (rule that)
    let ?d = "case fe_hostname env of None \<Rightarrow> dns | Some h \<Rightarrow> if h \<noteq> [] \<and> h \<notin> sd then dns @ [h] else dns"
    show "set ?d = wanted" "distinct ?d" using inv by (auto simp: wanted_def split: option.splits)
    show "split_names cr env names = (if ?d = [] then [''localhost''] else ?d, ips)"
      by (simp add: split_names_def l)
  qed
  show ?thesis
    unfolding wanted_def [symmetric] Let_def
    using d inv(2,4,5,7) by (cases "d = []") (auto simp: list.set_sel)
qed

text \<open>C27: A restart keeps the certificate.  After a start that succeeded, whether it generated or loaded the
  certificate, the next start, when no read fails and the three files have different paths, loads the very same
  certificate, key and CA, and writes nothing.\<close>

theorem restart_keeps_certificate:
  assumes "load_or_generate cr env cfg fs = (Inr m, fs')"
    and "distinct [tls_ca_file cfg, tls_cert_file cfg, tls_key_file cfg]"
    and "\<And>t der. cr_pem cr t der \<noteq> []"
    and "reads_succeed env'" and "reads_succeed env"
  shows "load_or_generate cr env' cfg fs' = (Inr (m\<lparr>ma_generated := False\<rparr>), fs')"
proof (cases "generate_and_write cr env cfg fs = (Inr m, fs')")
  case True
  then obtain ca cert key pair where g: "generate_pems cr env cfg = Inr (ca, cert, key)"
    "map_of fs' = (map_of fs)(tls_ca_file cfg \<mapsto> ca, tls_cert_file cfg \<mapsto> cert, tls_key_file cfg \<mapsto> key)"
    "cr_key_pair cr cert key = Some pair"
    "m = \<lparr>ma_certificate = attach_leaf cr pair, ma_ca_pem = ca, ma_cert_pem = cert, ma_generated = True\<rparr>"
    by (rule generate_and_write_ok)
  have "ca \<noteq> []" using generate_pems_pem [OF g(1)] assms(3) by auto
  moreover have "map_of fs' (tls_cert_file cfg) = Some cert" "map_of fs' (tls_key_file cfg) = Some key"
    "map_of fs' (tls_ca_file cfg) = Some ca"
    using assms(2) by (auto simp: g(2))
  ultimately show ?thesis
    using load_provided_quiet [OF assms(4), of fs' cfg cert key cr pair] g
    by (simp add: load_or_generate_def file_exists_quiet [OF assms(4)])
next
  case False
  with assms(1) have l: "load_provided cr env cfg fs = Inr m" "fs' = fs"
    "map_of fs (tls_cert_file cfg) \<noteq> None" "map_of fs (tls_key_file cfg) \<noteq> None"
    by (auto simp: load_or_generate_def file_exists_def split: sum.splits if_splits)
  then obtain cert key pair where f: "map_of fs (tls_cert_file cfg) = Some cert" "map_of fs (tls_key_file cfg) = Some key"
    "cr_key_pair cr cert key = Some pair"
    by (auto simp: load_provided_def read_file_def split: option.splits if_splits)
  have "load_provided cr env' cfg fs = Inr m" "ma_generated m = False"
    using load_provided_quiet [OF assms(4) f] load_provided_quiet [OF assms(5) f] l(1) by auto
  then show ?thesis
    using l f by (simp add: load_or_generate_def file_exists_quiet [OF assms(4)])
qed

lemma restart_keeps_certificate_witness:
  "\<exists>m fs. load_or_generate stub_crypto file_calm default_config [] = (Inr m, fs)
     \<and> load_or_generate stub_crypto file_calm default_config fs = (Inr (m\<lparr>ma_generated := False\<rparr>), fs)"
proof -
  obtain m fs where g: "load_or_generate stub_crypto file_calm default_config [] = (Inr m, fs)"
    using first_start_succeeds by blast
  from restart_keeps_certificate [OF g default_paths_distinct, of file_calm] g show ?thesis
    by (simp add: stub_crypto_def reads_succeed_def file_calm_def)
qed

text \<open>C28: Starting never overwrites an existing server certificate or key: when either file exists nothing at all
  is written, and when only one exists the start fails.  When neither exists, no path other than the three
  configured ones can change; a CA file that is already there is then replaced.\<close>

theorem existing_files_kept:
  "(map_of fs (tls_cert_file cfg) \<noteq> None \<or> map_of fs (tls_key_file cfg) \<noteq> None \<longrightarrow>
      snd (load_or_generate cr env cfg fs) = fs
      \<and> (map_of fs (tls_cert_file cfg) = None \<or> map_of fs (tls_key_file cfg) = None \<longrightarrow>
           isl (fst (load_or_generate cr env cfg fs))))
   \<and> (\<forall>p. p \<notin> {tls_ca_file cfg, tls_cert_file cfg, tls_key_file cfg} \<longrightarrow>
        map_of (snd (load_or_generate cr env cfg fs)) p = map_of fs p)"
proof -
  have "map_of (snd (generate_and_write cr env cfg fs)) p = map_of fs p"
    if "p \<notin> {tls_ca_file cfg, tls_cert_file cfg, tls_key_file cfg}" for p
    using that generate_and_write_frame by blast
  then show ?thesis by (auto simp: load_or_generate_def file_exists_def split: sum.splits)
qed

lemma existing_files_kept_witness:
  "load_or_generate stub_crypto file_calm default_config [(default_tls_cert_file, ''mine'')]
     = (fst (load_or_generate stub_crypto file_calm default_config [(default_tls_cert_file, ''mine'')]),
        [(default_tls_cert_file, ''mine'')])"
  using existing_files_kept [of "[(default_tls_cert_file, ''mine'')]" default_config stub_crypto file_calm]
  by (simp add: default_config_def prod_eq_iff)

text \<open>C29: From the environment to the listener: whatever configuration is accepted, the listener has exactly the
  minimum version that \<open>TLS_MIN_VERSION\<close> names (1.2 or 1.3), exactly the cipher suites that
  \<open>TLS_CIPHER_SUITES\<close> lists (none means the defaults of \<open>crypto/tls\<close>) and the session tickets as configured, offers
  HTTP/2 and HTTP/1.1, presents the loaded certificate, and requires a verified client certificate exactly when
  \<open>TLS_CLIENT_CA_FILE\<close> is set, then from a pool that is not empty.\<close>

theorem listener_from_environment:
  assumes "from_env secure insecure environ = Inr cfg"
    and "load_client_cas cr env fs (tls_client_ca_file cfg) = Inr cas"
  shows "let c = server_tls_config m cas cfg in
      tls_min_version_from_env environ = Inr (lt_min_version c)
      \<and> lt_min_version c \<in> {version_tls12, version_tls13}
      \<and> tls_cipher_suites_from_env secure insecure environ = Inr (lt_cipher_suites c)
      \<and> set (lt_cipher_suites c) \<subseteq> ran (cipher_suite_by_name secure insecure)
      \<and> bool_from_env environ ''TLS_DISABLE_SESSION_TICKETS'' True = Inr (lt_tickets_disabled c)
      \<and> lt_next_protos c = [''h2'', ''http/1.1'']
      \<and> lt_certificates c = [ma_certificate m]
      \<and> (lt_client_auth c = RequireAndVerifyClientCert \<longleftrightarrow> trim_space (environ ''TLS_CLIENT_CA_FILE'') \<noteq> [])
      \<and> (lt_client_auth c = RequireAndVerifyClientCert \<longrightarrow> (\<exists>pool. lt_client_cas c = Some pool \<and> pool \<noteq> []))"
proof -
  have ok: "tls_min_version cfg \<in> {version_tls12, version_tls13}"
    "set (tls_cipher_suites cfg) \<subseteq> ran (cipher_suite_by_name secure insecure)"
    using from_env_ok [OF assms(1)] by (simp_all add: config_ok_def)
  have parsed: "tls_min_version_from_env environ = Inr (tls_min_version cfg)"
    "tls_cipher_suites_from_env secure insecure environ = Inr (tls_cipher_suites cfg)"
    "bool_from_env environ ''TLS_DISABLE_SESSION_TICKETS'' True = Inr (disable_session_tickets cfg)"
    using assms(1) by (auto simp: from_env_def split: sum.splits if_splits)
  have named: "trim_space (tls_client_ca_file cfg) = [] \<longleftrightarrow> trim_space (environ ''TLS_CLIENT_CA_FILE'') = []"
    using assms(1) by (auto simp: from_env_def string_from_env_def split: sum.splits if_splits)
  have pool: "cas = None \<longleftrightarrow> trim_space (tls_client_ca_file cfg) = []" "cas \<noteq> Some []"
    using assms(2) by (auto simp: load_client_cas_def split: if_splits option.splits)
  have "tls_min_version cfg \<noteq> 0" using ok(1) by (auto simp: version_tls12_def version_tls13_def)
  with ok parsed named pool show ?thesis
    by (cases cas) (auto simp: server_tls_config_def Let_def default_next_protos_def)
qed

definition sample_material :: material where
  "sample_material = \<lparr>ma_certificate = \<lparr>tc_chain = [''der''], tc_leaf = None\<rparr>, ma_ca_pem = ''ca'', ma_cert_pem = ''cert'',
     ma_generated = False\<rparr>"

lemma listener_from_environment_witness:
  "lt_client_auth (server_tls_config sample_material None default_config) = NoClientCert
     \<and> lt_min_version (server_tls_config sample_material None default_config) \<in> {version_tls12, version_tls13}"
proof -
  have "from_env [] [] (\<lambda>_. '' '') = Inr default_config" by (rule from_env_defaults) (rule trim_blank)
  moreover have "load_client_cas stub_crypto file_calm [] (tls_client_ca_file default_config) = Inr None"
    by (simp add: load_client_cas_def default_config_def)
  ultimately show ?thesis
    using listener_from_environment [of "[]" "[]" "\<lambda>_. '' ''" default_config stub_crypto file_calm "[]" None sample_material]
    by (cases "lt_client_auth (server_tls_config sample_material None default_config)") (auto simp: Let_def trim_blank)
qed

text \<open>Parsing the leaf early changes nothing that is reported.\<close>

lemma leaf_from_attach: "leaf_from (cr_parse_cert cr) (Some (attach_leaf cr c)) = leaf_from (cr_parse_cert cr) (Some c)"
  by (auto simp: leaf_from_def attach_leaf_def split: option.splits)

end
