(* ===== verification/Tlslisten.thy ===== *)
theory Tlslisten
  imports Http Float64
begin

text \<open>
  Package \<open>internal/tlslisten\<close> (\<open>listen.go\<close>): the TLS listener that measures handshakes and the
  tracker that hands the measurement to the requests of the connection.

  A \<open>*Meta\<close> is an address into a heap of records; the counter of requests is a 64-bit word, as
  the \<open>atomic.Uint64\<close> it models.  Connections are numbers.  The tracker is the heap and the map
  \<open>byConn\<close>.  What the inner listener and the handshakes do is a list of outcomes.  The server always
  passes a tracker, so \<open>accept\<close> and \<open>on_conn_state\<close> leave out the nil tracker, with which they would
  store and delete nothing.
\<close>

section \<open>Metadata of a connection\<close>

record meta =
  mt_handshake :: int
  mt_requests :: "64 word"

text \<open>\<open>ConsumeHandshake\<close>; the duration is in nanoseconds, \<open>Microseconds\<close> truncates.\<close>

definition micros_to_ms :: "int \<Rightarrow> f64" where
  "micros_to_ms us = fdiv (of_int64 us) (Fin 1000)"

definition consume_handshake :: "meta option \<Rightarrow> (f64 \<times> bool) \<times> meta option" where
  "consume_handshake m =
     (case m of
        None \<Rightarrow> ((Fin 0, False), None)
      | Some x \<Rightarrow>
          let n = mt_requests x + 1; x' = x\<lparr>mt_requests := n\<rparr>
          in if 1 < n then ((Fin 0, True), Some x')
             else ((micros_to_ms (mt_handshake x div 1000), False), Some x'))"

section \<open>Tracker\<close>

type_synonym conn = nat

record tracker =
  tk_heap :: "meta list"
  tk_by_conn :: "conn \<Rightarrow> nat option"

definition new_tracker :: tracker where
  "new_tracker = \<lparr>tk_heap = [], tk_by_conn = Map.empty\<rparr>"

datatype conn_state = StateNew | StateActive | StateIdle | StateHijacked | StateClosed

text \<open>\<open>ConnContext\<close>: the metadata that the context of the connection refers to from then on.\<close>

definition conn_context :: "tracker option \<Rightarrow> conn \<Rightarrow> nat option" where
  "conn_context t c = (case t of None \<Rightarrow> None | Some tk \<Rightarrow> tk_by_conn tk c)"

definition on_conn_state :: "conn \<Rightarrow> conn_state \<Rightarrow> tracker \<Rightarrow> tracker" where
  "on_conn_state c s tk =
     (if s = StateClosed \<or> s = StateHijacked then tk\<lparr>tk_by_conn := (tk_by_conn tk)(c := None)\<rparr> else tk)"

text \<open>\<open>FromContext\<close> and the update of the record it points to.\<close>

definition from_context :: "tracker \<Rightarrow> nat option \<Rightarrow> meta option" where
  "from_context tk a = (case a of None \<Rightarrow> None | Some i \<Rightarrow> if i < length (tk_heap tk) then Some (tk_heap tk ! i) else None)"

definition consume :: "nat option \<Rightarrow> tracker \<Rightarrow> (f64 \<times> bool) \<times> tracker" where
  "consume a tk =
     (let (r, m) = consume_handshake (from_context tk a)
      in (r, case (a, m) of (Some i, Some x) \<Rightarrow> tk\<lparr>tk_heap := (tk_heap tk)[i := x]\<rparr> | _ \<Rightarrow> tk))"

section \<open>Listener\<close>

record tls_config =
  tl_next_protos :: "string list"

definition new_listener_protos :: "string list \<Rightarrow> tls_config option \<Rightarrow> tls_config" where
  "new_listener_protos defaults cfg =
     (let c = (case cfg of None \<Rightarrow> \<lparr>tl_next_protos = []\<rparr> | Some c \<Rightarrow> c)
      in if tl_next_protos c = [] then c\<lparr>tl_next_protos := defaults\<rparr> else c)"

text \<open>
  What the inner \<open>Accept\<close> returns: an error, or a connection with the outcome of its handshake
  (the duration in nanoseconds, or a failure or timeout).
\<close>

datatype incoming = AcceptFails string | Arrives conn "int option"

text \<open>
  \<open>Accept\<close>: the first connection whose handshake completes, or the first error of the inner
  listener.  \<open>None\<close> when the outcomes run out, that is while the call is still blocked.
\<close>

fun accept :: "incoming list \<Rightarrow> tracker \<Rightarrow> (string + conn) option \<times> incoming list \<times> tracker" where
  "accept [] tk = (None, [], tk)"
| "accept (AcceptFails e # es) tk = (Some (Inl e), es, tk)"
| "accept (Arrives c None # es) tk = accept es tk"
| "accept (Arrives c (Some dur) # es) tk =
     (Some (Inr c), es,
      \<lparr>tk_heap = tk_heap tk @ [\<lparr>mt_handshake = dur, mt_requests = 0\<rparr>],
       tk_by_conn = (tk_by_conn tk)(c \<mapsto> length (tk_heap tk))\<rparr>)"

section \<open>Lemmas\<close>

definition completes :: "incoming \<Rightarrow> bool" where
  "completes e \<longleftrightarrow> (case e of Arrives _ None \<Rightarrow> False | _ \<Rightarrow> True)"

lemma accept_skips:
  "accept es tk = accept (dropWhile (\<lambda>e. \<not> completes e) es) tk"
  by (induction es tk rule: accept.induct) (simp_all add: completes_def)

subsection \<open>Requests of several connections\<close>

text \<open>The requests of all connections in the order in which they consult the tracker.\<close>

fun consume_all :: "nat option list \<Rightarrow> tracker \<Rightarrow> (f64 \<times> bool) list" where
  "consume_all [] tk = []"
| "consume_all (a # as) tk = fst (consume a tk) # consume_all as (snd (consume a tk))"

text \<open>The answers to the requests of the connection with the metadata at address \<open>i\<close>.\<close>

definition answers :: "nat \<Rightarrow> nat option list \<Rightarrow> tracker \<Rightarrow> (f64 \<times> bool) list" where
  "answers i as tk = map snd (filter (\<lambda>ar. fst ar = Some i) (zip as (consume_all as tk)))"

lemma answers_simps:
  "answers i [] tk = []"
  "answers i (a # as) tk = (if a = Some i then [fst (consume a tk)] else []) @ answers i as (snd (consume a tk))"
  by (simp_all add: answers_def)

lemma consume_other:
  "a \<noteq> Some i \<Longrightarrow> from_context (snd (consume a tk)) (Some i) = from_context tk (Some i)"
  by (auto simp: consume_def from_context_def Let_def case_prod_beta split: option.splits)

lemma consume_same:
  assumes "from_context tk (Some i) = Some x"
  shows "fst (consume (Some i) tk) = fst (consume_handshake (Some x))"
    and "from_context (snd (consume (Some i) tk)) (Some i) = snd (consume_handshake (Some x))"
  using assms
  by (auto simp: consume_def from_context_def Let_def case_prod_beta consume_handshake_def split: if_splits)

lemma consume_reused:
  assumes "0 < n" and "n < 2 ^ 64 - 1" and "mt_requests x = of_nat n"
  shows "consume_handshake (Some x) = ((Fin 0, True), Some (x\<lparr>mt_requests := of_nat (Suc n)\<rparr>))"
proof -
  have "unat (of_nat (Suc n) :: 64 word) = Suc n"
    using assms(2) by (simp add: unat_of_nat take_bit_nat_eq_self_iff del: of_nat_Suc)
  then have "(1 :: 64 word) < of_nat (Suc n)" using assms(1) by (simp add: word_less_nat_alt del: of_nat_Suc)
  then show ?thesis using assms(3) by (simp add: consume_handshake_def Let_def add.commute)
qed

lemma answers_reused:
  assumes "from_context tk (Some i) = Some x" and "mt_requests x = of_nat n" and "0 < n" and "n + length as < 2 ^ 64"
  shows "answers i as tk = replicate (length (filter (\<lambda>a. a = Some i) as)) (Fin 0, True)"
  using assms
proof (induction as arbitrary: tk x n)
  case (Cons a as)
  show ?case
  proof (cases "a = Some i")
    case True
    have c: "consume_handshake (Some x) = ((Fin 0, True), Some (x\<lparr>mt_requests := of_nat (Suc n)\<rparr>))"
      using Cons.prems by (intro consume_reused) simp_all
    have "answers i as (snd (consume a tk)) = replicate (length (filter (\<lambda>a. a = Some i) as)) (Fin 0, True)"
      using Cons.prems consume_same(2) [OF Cons.prems(1)] c True
      by (intro Cons.IH [where x = "x\<lparr>mt_requests := of_nat (Suc n)\<rparr>" and n = "Suc n"]) simp_all
    with True c consume_same(1) [OF Cons.prems(1)] show ?thesis by (simp add: answers_simps)
  next
    case False
    with Cons.prems consume_other [OF False] show ?thesis
      by (simp add: answers_simps Cons.IH [of _ x n])
  qed
qed (simp add: answers_simps)

lemma answers_fresh:
  assumes "from_context tk (Some i) = Some x" and "mt_requests x = 0" and "length as < 2 ^ 64"
    and "Some i \<in> set as"
  shows "answers i as tk = (micros_to_ms (mt_handshake x div 1000), False)
      # replicate (length (filter (\<lambda>a. a = Some i) as) - 1) (Fin 0, True)"
  using assms
proof (induction as arbitrary: tk)
  case (Cons a as)
  show ?case
  proof (cases "a = Some i")
    case True
    have c: "consume_handshake (Some x) = ((micros_to_ms (mt_handshake x div 1000), False), Some (x\<lparr>mt_requests := of_nat 1\<rparr>))"
      using Cons.prems(2) by (simp add: consume_handshake_def Let_def)
    have "answers i as (snd (consume a tk)) = replicate (length (filter (\<lambda>a. a = Some i) as)) (Fin 0, True)"
      using Cons.prems consume_same(2) [OF Cons.prems(1)] c True
      by (intro answers_reused [where x = "x\<lparr>mt_requests := of_nat 1\<rparr>" and n = 1]) simp_all
    with True c consume_same(1) [OF Cons.prems(1)] show ?thesis by (simp add: answers_simps)
  next
    case False
    with Cons.prems consume_other [OF False] show ?thesis
      by (auto simp: answers_simps Cons.IH)
  qed
qed simp

subsection \<open>Life of a connection\<close>

text \<open>
  The steps that touch the tracker, with the set of connections the server has accepted and
  not yet closed or given away.
\<close>

inductive conn_step :: "tracker \<times> conn set \<Rightarrow> tracker \<times> conn set \<Rightarrow> bool" where
  accepted: "accept [Arrives c (Some dur)] tk = (Some (Inr c), [], tk') \<Longrightarrow> c \<notin> live
     \<Longrightarrow> conn_step (tk, live) (tk', insert c live)"
| refused: "accept [Arrives c None] tk = (r, es, tk') \<Longrightarrow> conn_step (tk, live) (tk', live)"
| request: "conn_step (tk, live) (snd (consume a tk), live)"
| active: "s \<notin> {StateClosed, StateHijacked} \<Longrightarrow> conn_step (tk, live) (on_conn_state c s tk, live)"
| closed: "s \<in> {StateClosed, StateHijacked} \<Longrightarrow> conn_step (tk, live) (on_conn_state c s tk, live - {c})"

inductive conn_reachable :: "tracker \<times> conn set \<Rightarrow> bool" where
  start: "conn_reachable (new_tracker, {})"
| step: "conn_reachable s \<Longrightarrow> conn_step s s' \<Longrightarrow> conn_reachable s'"

inductive_cases conn_stepE: "conn_step (tk, live) s'"

definition tracker_ok :: "tracker \<times> conn set \<Rightarrow> bool" where
  "tracker_ok s \<longleftrightarrow> dom (tk_by_conn (fst s)) = snd s \<and> inj_on (tk_by_conn (fst s)) (snd s)
     \<and> (\<forall>c i. tk_by_conn (fst s) c = Some i \<longrightarrow> i < length (tk_heap (fst s)))"

lemma consume_frame [simp]:
  "tk_by_conn (snd (consume a tk)) = tk_by_conn tk" "length (tk_heap (snd (consume a tk))) = length (tk_heap tk)"
  by (auto simp: consume_def Let_def case_prod_beta split: option.splits)

lemma tracker_ok_accept:
  assumes "tracker_ok (tk, live)" and "c \<notin> live"
  shows "tracker_ok (\<lparr>tk_heap = tk_heap tk @ [m], tk_by_conn = (tk_by_conn tk)(c \<mapsto> length (tk_heap tk))\<rparr>, insert c live)"
  using assms unfolding tracker_ok_def
  by (auto simp: inj_on_def less_Suc_eq) (metis less_irrefl)+

lemma tracker_ok_step:
  assumes "conn_step s s'" and "tracker_ok s"
  shows "tracker_ok s'"
  using assms
proof (induction rule: conn_step.induct)
  case (accepted c dur tk tk' live)
  then show ?case using tracker_ok_accept [of tk live c] by auto
next
  case (closed s tk live c)
  then show ?case by (auto simp: tracker_ok_def on_conn_state_def inj_on_def)
qed (auto simp: tracker_ok_def on_conn_state_def)

section \<open>Properties\<close>

text \<open>C11: Of all requests on a connection that the listener accepted, exactly the first to be recorded is
  charged with the duration of the handshake, and every later one reports a reused connection,
  whatever requests of other connections come in between (up to \<open>2 ^ 64 - 1\<close> requests in all).\<close>

theorem handshake_charged_once:
  assumes "accept es tk = (Some (Inr c), es', tk')" and "conn_context (Some tk') c = Some i"
    and "Some i \<in> set as" and "length as < 2 ^ 64"
  shows "answers i as tk' = (micros_to_ms (mt_handshake (tk_heap tk' ! i) div 1000), False)
      # replicate (length (filter (\<lambda>a. a = Some i) as) - 1) (Fin 0, True)"
proof -
  from assms(1) obtain dur where "tk_heap tk' = tk_heap tk @ [\<lparr>mt_handshake = dur, mt_requests = 0\<rparr>]"
    "tk_by_conn tk' = (tk_by_conn tk)(c \<mapsto> length (tk_heap tk))"
    by (induction es tk rule: accept.induct) auto
  with assms(2) have "from_context tk' (Some i) = Some (tk_heap tk' ! i)" "mt_requests (tk_heap tk' ! i) = 0"
    by (auto simp: conn_context_def from_context_def)
  with answers_fresh assms(3,4) show ?thesis by blast
qed

lemma handshake_charged_once_witness:
  "answers 0 [Some 0, None, Some 0] (snd (snd (accept [Arrives 8 None, Arrives 7 (Some 1500000)] new_tracker)))
     = [(micros_to_ms 1500, False), (Fin 0, True)]"
proof -
  let ?tk = "snd (snd (accept [Arrives 8 None, Arrives 7 (Some 1500000)] new_tracker))"
  have "accept [Arrives 8 None, Arrives 7 (Some 1500000)] new_tracker = (Some (Inr 7), [], ?tk)" by simp
  moreover have "conn_context (Some ?tk) 7 = Some 0" by (simp add: conn_context_def new_tracker_def)
  ultimately show ?thesis
    using handshake_charged_once [where as = "[Some 0, None, Some 0]"] by (fastforce simp: new_tracker_def)
qed

text \<open>C31: \<open>Accept\<close> skips every connection whose handshake fails, leaving no trace of it in the tracker, and
  returns the first error of the inner listener or the first connection that completes its handshake,
  whose context then carries that handshake; the contexts of other connections do not change.\<close>

theorem accept_spec:
  "accept es tk =
     (case dropWhile (\<lambda>e. \<not> completes e) es of
        [] \<Rightarrow> (None, [], tk)
      | AcceptFails e # rest \<Rightarrow> (Some (Inl e), rest, tk)
      | Arrives c None # rest \<Rightarrow> accept rest tk
      | Arrives c (Some dur) # rest \<Rightarrow>
          (Some (Inr c), rest,
           tk\<lparr>tk_heap := tk_heap tk @ [\<lparr>mt_handshake = dur, mt_requests = 0\<rparr>],
              tk_by_conn := (tk_by_conn tk)(c \<mapsto> length (tk_heap tk))\<rparr>))
   \<and> (\<forall>c rest tk'. accept es tk = (Some (Inr c), rest, tk') \<longrightarrow>
        (\<exists>dur. Arrives c (Some dur) \<in> set es
           \<and> from_context tk' (conn_context (Some tk') c) = Some \<lparr>mt_handshake = dur, mt_requests = 0\<rparr>)
        \<and> (\<forall>d. d \<noteq> c \<longrightarrow> conn_context (Some tk') d = conn_context (Some tk) d))"
proof (intro conjI allI impI)
  show "accept es tk =
     (case dropWhile (\<lambda>e. \<not> completes e) es of
        [] \<Rightarrow> (None, [], tk)
      | AcceptFails e # rest \<Rightarrow> (Some (Inl e), rest, tk)
      | Arrives c None # rest \<Rightarrow> accept rest tk
      | Arrives c (Some dur) # rest \<Rightarrow>
          (Some (Inr c), rest,
           tk\<lparr>tk_heap := tk_heap tk @ [\<lparr>mt_handshake = dur, mt_requests = 0\<rparr>],
              tk_by_conn := (tk_by_conn tk)(c \<mapsto> length (tk_heap tk))\<rparr>))"
    by (induction es tk rule: accept.induct) (simp_all add: completes_def)
next
  fix c rest tk' assume "accept es tk = (Some (Inr c), rest, tk')"
  then show "\<exists>dur. Arrives c (Some dur) \<in> set es
      \<and> from_context tk' (conn_context (Some tk') c) = Some \<lparr>mt_handshake = dur, mt_requests = 0\<rparr>"
    by (induction es tk rule: accept.induct) (auto simp: conn_context_def from_context_def)
next
  fix c rest tk' d assume "accept es tk = (Some (Inr c), rest, tk')" and "d \<noteq> c"
  then show "conn_context (Some tk') d = conn_context (Some tk) d"
    by (induction es tk rule: accept.induct) (auto simp: conn_context_def)
qed

lemma accept_spec_witness:
  "fst (accept [Arrives 8 None, Arrives 7 (Some 5), AcceptFails ''closed''] new_tracker) = Some (Inr 7)"
  by (subst accept_spec [THEN conjunct1]) (simp add: completes_def)

text \<open>C10: In every state the server can reach, the tracker holds exactly the connections that are
  accepted and not closed or hijacked, each with metadata of its own: closed connections leak nothing, and no two
  connections share a request counter.\<close>

theorem tracker_invariant:
  assumes "conn_reachable (tk, live)"
  shows "dom (tk_by_conn tk) = live \<and> inj_on (tk_by_conn tk) live
      \<and> (\<forall>c \<in> live. \<exists>m. from_context tk (conn_context (Some tk) c) = Some m)"
proof -
  have "tracker_ok s" if "conn_reachable s" for s
    using that
  proof induction
    case start
    show ?case by (simp add: tracker_ok_def new_tracker_def)
  next
    case (step s s')
    then show ?case by (blast intro: tracker_ok_step)
  qed
  from this [OF assms] show ?thesis
    by (auto simp: tracker_ok_def from_context_def conn_context_def)
qed

lemma tracker_invariant_witness:
  "tk_by_conn (on_conn_state 7 StateClosed (snd (snd (accept [Arrives 7 (Some 5)] new_tracker)))) = Map.empty"
proof -
  let ?tk = "snd (snd (accept [Arrives 7 (Some 5)] new_tracker))"
  have "conn_reachable (?tk, insert 7 {})"
    by (rule conn_reachable.step [OF conn_reachable.start], rule conn_step.accepted) simp_all
  then have "conn_reachable (on_conn_state 7 StateClosed ?tk, insert 7 {} - {7})"
    by (rule conn_reachable.step) (rule conn_step.closed, simp)
  from tracker_invariant [OF this] show ?thesis by simp
qed

end
