(* ===== verification/Server.thy ===== *)
theory Server
  imports Blobs Certs Tlslisten
begin

text \<open>
  Package \<open>internal/server\<close>: the HTTP handlers, their routing and their protection.

  \<open>app\<close> is the part of the struct \<open>App\<close> that does not change while the server runs, with what
  the handlers use of code that is not in the repository: SHA-256, the JSON scanner, the file
  server of the embedded static files, the embedded dashboard page, and the cipher-suite and
  certificate functions of \<open>tls_env\<close>.  \<open>state\<close> is what the handlers change: the blob store, the
  run log and the connection tracker.  \<open>srv_env\<close> is what the outside decides during one request.
  \<open>serve\<close> is the whole handling of a request, from \<open>wrap\<close> over the mux to the handlers.
\<close>

section \<open>State and responses\<close>

text \<open>
  The JSON scanner on the bytes read so far: a complete value at the front, a proper prefix of
  one, or no JSON.
\<close>

datatype json_scan = Complete json | Incomplete | Malformed

record app =
  a_cfg :: config
  a_material :: material
  a_hostname :: string
  a_ready :: bool
  a_tls :: tls_env
  a_digest :: "string \<Rightarrow> string"
  a_width :: "json \<Rightarrow> nat"
  a_scan :: "string \<Rightarrow> json_scan"
  a_index :: "string option"
  a_static :: "request \<Rightarrow> string \<Rightarrow> int \<times> (string \<times> string option) list \<times> string"

record state =
  s_store :: store
  s_log :: logger
  s_tracker :: tracker

text \<open>
  \<open>e_total_us\<close> and \<open>e_read_us\<close> are the durations the handler measures; \<open>e_copy_fails\<close>: the
  client goes away during a download.
\<close>

record srv_env =
  e_blob :: io_env
  e_log :: log_env
  e_total_us :: int
  e_read_us :: int
  e_copy_fails :: bool

datatype body = NoBody | JsonBody json | TextBody string | FileBody string | LinkBody string | BrokenBody

type_synonym headers = "(string \<times> string) list"

record response =
  p_status :: int
  p_headers :: headers
  p_body :: body

definition set_header :: "string \<Rightarrow> string \<Rightarrow> headers \<Rightarrow> headers" where
  "set_header k v h = AList.update k v h"

section \<open>JSON responses (json.go)\<close>

text \<open>A payload that cannot be encoded leaves the body empty; the status is already sent.\<close>

definition write_json :: "headers \<Rightarrow> int \<Rightarrow> json option \<Rightarrow> response" where
  "write_json h status payload =
     \<lparr>p_status = status, p_headers = set_header ''Content-Type'' ''application/json'' h,
      p_body = (case payload of None \<Rightarrow> NoBody | Some j \<Rightarrow> JsonBody j)\<rparr>"

definition write_error :: "headers \<Rightarrow> int \<Rightarrow> string \<Rightarrow> response" where
  "write_error h status message = write_json h status (Some (JObj [(''error'', JStr (utf8_fix message))]))"

definition write_body :: "headers \<Rightarrow> int \<Rightarrow> string \<Rightarrow> response" where
  "write_body h status data = \<lparr>p_status = status, p_headers = h, p_body = TextBody data\<rparr>"

text \<open>\<open>http.Error\<close>.\<close>

definition http_error :: "headers \<Rightarrow> int \<Rightarrow> string \<Rightarrow> response" where
  "http_error h status message =
     \<lparr>p_status = status,
      p_headers = set_header ''X-Content-Type-Options'' ''nosniff''
        (set_header ''Content-Type'' ''text/plain; charset=utf-8'' (AList.delete ''Content-Length'' h)),
      p_body = TextBody (message @ [CHR 0x0A])\<rparr>"

text \<open>The text of an error.\<close>

fun error_text :: "('s \<Rightarrow> string) \<Rightarrow> 's gerror \<Rightarrow> string" where
  "error_text f (Sentinel s) = f s"
| "error_text f (Message m) = m"
| "error_text f (SysErr m) = m"
| "error_text f (Wrapped p e) = p @ '': '' @ error_text f e"

fun blob_sentinel_text :: "blob_sentinel \<Rightarrow> string" where
  "blob_sentinel_text ErrInvalidName = ''invalid blob name''"
| "blob_sentinel_text ErrTooLarge = ''blob exceeds MAX_BLOB_BYTES''"
| "blob_sentinel_text ErrNotFound = ''blob not found''"
| "blob_sentinel_text ErrSizeMismatch = ''wrote fewer bytes than requested''"
| "blob_sentinel_text ErrLengthMismatch = ''body size does not match Content-Length''"

fun log_sentinel_text :: "log_sentinel \<Rightarrow> string" where
  "log_sentinel_text ErrNoMatchingRun = ''no matching run''"
| "log_sentinel_text ErrAmbiguousRun = ''multiple matching runs; include experiment_id and sample_index''"

definition write_blob_error :: "headers \<Rightarrow> blob_error \<Rightarrow> response" where
  "write_blob_error h e =
     write_error h
       (if errors_is e ErrInvalidName \<or> errors_is e ErrLengthMismatch \<or> errors_is e ErrSizeMismatch then 400
        else if errors_is e ErrTooLarge then 413
        else if errors_is e ErrNotFound then 404
        else 500)
       (error_text blob_sentinel_text e)"

definition marshal_blob_info :: "info \<Rightarrow> json option" where
  "marshal_blob_info i = map_option JObj (members
     [str_member ''name'' (i_name i), json_member ''bytes'' False (enc_val (VInt (i_bytes i))),
      opt_str_member ''sha256'' (i_sha256 i), json_member ''modified'' False (enc_val (VTime (i_modified i))),
      json_member ''write_ms'' (i_write_ms i = Fin 0) (enc_val (VFloat (i_write_ms i))),
      json_member ''read_ms'' (i_read_ms i = Fin 0) (enc_val (VFloat (i_read_ms i)))])"

fun marshal_all :: "('a \<Rightarrow> json option) \<Rightarrow> 'a list \<Rightarrow> json list option" where
  "marshal_all f [] = Some []"
| "marshal_all f (x # xs) = (case f x of None \<Rightarrow> None | Some j \<Rightarrow> map_option (Cons j) (marshal_all f xs))"

section \<open>Protection (security.go)\<close>

definition content_security_policy :: string where
  "content_security_policy = ''default-src 'self'; style-src 'self'; script-src 'self'; img-src 'self' data:; connect-src 'self'; frame-ancestors 'none'; base-uri 'self'; form-action 'self'' @ [CHR 0x27]"

definition security_headers :: headers where
  "security_headers =
     set_header ''Cache-Control'' ''no-store''
      (set_header ''Referrer-Policy'' ''no-referrer''
       (set_header ''X-Frame-Options'' ''DENY''
        (set_header ''X-Content-Type-Options'' ''nosniff''
         (set_header ''Content-Security-Policy'' content_security_policy []))))"

definition write_protected :: "string \<Rightarrow> string \<Rightarrow> bool" where
  "write_protected meth path \<longleftrightarrow>
     (if meth \<in> {''POST'', ''PUT'', ''DELETE'', ''PATCH''} then True
      else if meth \<in> {''GET'', ''HEAD''}
        then path = ''/ca.crt'' \<or> path = ''/api/bench/probe'' \<or> has_prefix path ''/api/blobs/''
      else False)"

definition bearer_token :: "string \<Rightarrow> string" where
  "bearer_token header = (if \<not> has_prefix header ''Bearer '' then [] else trim_space (drop 7 header))"

definition authorized :: "app \<Rightarrow> request \<Rightarrow> bool" where
  "authorized a r \<longleftrightarrow>
     (let token = write_token (a_cfg a)
      in if token = [] then True
         else let got = bearer_token (header_get r ''Authorization'')
              in if length got \<noteq> length token then False else got = token)"

section \<open>Validation (validate.go, probe.go)\<close>

definition id_char :: "char \<Rightarrow> bool" where
  "id_char c \<longleftrightarrow> name_char c \<or> c = CHR '':''"

definition valid_experiment_id :: "string \<Rightarrow> bool" where
  "valid_experiment_id i \<longleftrightarrow>
     \<not> (i = [] \<or> max_experiment_id_length < rune_count i) \<and> i \<noteq> [] \<and> list_all id_char i"

definition allowed_route_modes :: "string set" where
  "allowed_route_modes = {''edge'', ''passthrough'', ''reencrypt'', ''service-http'', ''service-https''}"

definition parse_route_mode :: "string \<Rightarrow> string option" where
  "parse_route_mode raw =
     (let s = trim_space raw
      in if s = [] then Some [] else if s \<in> allowed_route_modes then Some s else None)"

definition probe_name :: "string \<Rightarrow> int \<Rightarrow> string" where
  "probe_name experiment_id sample_index = experiment_id @ ''-'' @ itoa sample_index"

definition valid_timing_operation :: "string \<Rightarrow> bool" where
  "valid_timing_operation op \<longleftrightarrow> op \<in> {''generate'', ''upload'', ''download'', ''handshake''}"

section \<open>Recording a run\<close>

definition apply_bench_headers :: "request \<Rightarrow> run \<Rightarrow> run" where
  "apply_bench_headers r run =
     (let v = header_get r ''X-Route-Mode'';
          run1 = (if v \<noteq> [] then
                    (case parse_route_mode v of
                       Some mode \<Rightarrow> if mode \<noteq> [] then run\<lparr>r_route_mode := mode\<rparr> else run
                     | None \<Rightarrow> run)
                  else run);
          e = header_get r ''X-Experiment-Id'';
          run2 = (if e \<noteq> [] \<and> valid_experiment_id e then run1\<lparr>r_experiment_id := e\<rparr> else run1);
          i = header_get r ''X-Sample-Index''
      in if i \<noteq> [] then
           (case parse_int64 i of
              Some idx \<Rightarrow> if 0 < idx then run2\<lparr>r_sample_index := idx\<rparr> else run2
            | None \<Rightarrow> run2)
         else run2)"

text \<open>\<open>record\<close> up to the call of \<open>Append\<close>: the run to be appended, and the tracker afterwards.\<close>

definition run_of_request :: "app \<Rightarrow> request \<Rightarrow> run \<Rightarrow> tracker \<Rightarrow> run \<times> tracker" where
  "run_of_request a r run tk =
     (let i = from_request (a_tls a) r (a_hostname a) (Some (ma_certificate (a_material a)));
          run1 = run\<lparr>r_tls := ri_tls i, r_client_addr := ri_client_addr i, r_tls_version := ri_tls_version i,
                     r_cipher := ri_cipher i, r_alpn := ri_alpn i\<rparr>;
          run2 = apply_bench_headers r run1;
          run3 = (if ri_tls i then run2\<lparr>r_key_algorithm := ri_key_algorithm i, r_key_size := ri_key_size i,
                                        r_key_curve := ri_key_curve i\<rparr> else run2);
          ((handshake_ms, reused), tk') = consume (q_meta r) tk
      in (if flt (Fin 0) handshake_ms \<or> reused
          then let run4 = run3\<lparr>r_tls_reused := reused\<rparr>
               in if flt (Fin 0) handshake_ms then run4\<lparr>r_tls_handshake_server_ms := handshake_ms\<rparr> else run4
          else run3, tk'))"

text \<open>A failure of \<open>Append\<close> is logged and ignored.\<close>

definition record_run :: "app \<Rightarrow> srv_env \<Rightarrow> request \<Rightarrow> run \<Rightarrow> state \<Rightarrow> state" where
  "record_run a env r run st =
     (let (run', tk) = run_of_request a r run (s_tracker st);
          (e, l) = append (a_width a) (e_log env) run' (s_log st)
      in st\<lparr>s_log := l, s_tracker := tk\<rparr>)"

section \<open>Handlers (server.go, probe.go)\<close>

definition healthz :: "headers \<Rightarrow> response" where
  "healthz h = write_body h 200 (''ok'' @ [CHR 0x0A])"

definition readyz :: "app \<Rightarrow> headers \<Rightarrow> response" where
  "readyz a h = (if \<not> a_ready a then http_error h 503 ''not ready'' else write_body h 200 (''ok'' @ [CHR 0x0A]))"

definition serve_ca_file :: "app \<Rightarrow> headers \<Rightarrow> response" where
  "serve_ca_file a h =
     (if \<not> serve_ca (a_cfg a) then http_error h 404 ''404 page not found''
      else write_body
        (set_header ''Content-Disposition'' ''attachment; filename=ca.crt''
          (set_header ''Content-Type'' ''application/x-pem-file'' h)) 200 (ma_ca_pem (a_material a)))"

definition dashboard :: "app \<Rightarrow> headers \<Rightarrow> response" where
  "dashboard a h =
     (case a_index a of
        None \<Rightarrow> http_error h 500 ''dashboard missing''
      | Some data \<Rightarrow> write_body (set_header ''Content-Type'' ''text/html; charset=utf-8'' h) 200 data)"

definition api_info :: "app \<Rightarrow> request \<Rightarrow> headers \<Rightarrow> response" where
  "api_info a r h =
     write_json h 200 (marshal_info (from_request (a_tls a) r (a_hostname a) (Some (ma_certificate (a_material a)))))"

text \<open>The limit that \<open>apiResults\<close> uses, \<open>None\<close> for a bad request.\<close>

definition results_limit :: "request \<Rightarrow> int option" where
  "results_limit r =
     (let raw = trim_space (query_get r ''limit'');
          limit = (if raw \<noteq> [] then
                     (case parse_int64 raw of
                        None \<Rightarrow> None
                      | Some n \<Rightarrow> if n \<le> 0 then None else Some n)
                   else Some results_api_default_limit)
      in map_option (\<lambda>n. if results_api_max_limit < n then results_api_max_limit else n) limit)"

definition api_results :: "app \<Rightarrow> srv_env \<Rightarrow> request \<Rightarrow> headers \<Rightarrow> state \<Rightarrow> response" where
  "api_results a env r h st =
     (case results_limit r of
        None \<Rightarrow> write_error h 400 ''limit must be a positive integer''
      | Some limit \<Rightarrow>
          (case read_newest_page (a_width a) (e_log env) limit (s_log st) of
             Inl e \<Rightarrow> write_error h 500 (error_text log_sentinel_text e)
           | Inr (runs, ttl) \<Rightarrow>
               write_json h 200 (map_option (\<lambda>js. JObj
                 [(''limit'', JInt limit), (''runs'', JArr js), (''total'', JInt (int ttl)),
                  (''truncated'', JBool (length runs < ttl))]) (marshal_all marshal_run runs))))"

definition list_blobs_handler :: "srv_env \<Rightarrow> headers \<Rightarrow> state \<Rightarrow> response" where
  "list_blobs_handler env h st =
     (case list_blobs (e_blob env) (s_store st) of
        Inl e \<Rightarrow> write_error h 500 (error_text blob_sentinel_text e)
      | Inr items \<Rightarrow> write_json h 200 (map_option (\<lambda>js. JObj [(''blobs'', JArr js)]) (marshal_all marshal_blob_info items)))"

definition generate_blob :: "app \<Rightarrow> srv_env \<Rightarrow> request \<Rightarrow> headers \<Rightarrow> state \<Rightarrow> response \<times> state" where
  "generate_blob a env r h st =
     (case parse_int64 (query_get r ''size'') of
        None \<Rightarrow> (write_error h 400 ''query size must be a positive integer'', st)
      | Some sz \<Rightarrow>
          if sz \<le> 0 then (write_error h 400 ''query size must be a positive integer'', st)
          else
            let (res, store) = generate (e_blob env) (a_digest a) (s_store st) (query_get r ''name'') sz;
                st1 = st\<lparr>s_store := store\<rparr>
            in case res of
                 Inl e \<Rightarrow> (write_blob_error h e, st1)
               | Inr i \<Rightarrow>
                   (write_json h 201 (marshal_blob_info i),
                    record_run a env r (zero_run\<lparr>r_operation := ''generate'', r_name := i_name i, r_bytes := i_bytes i,
                      r_write_ms := i_write_ms i, r_total_ms := ms_since (e_total_us env)\<rparr>) st1))"

definition upload_blob :: "app \<Rightarrow> srv_env \<Rightarrow> request \<Rightarrow> string \<Rightarrow> headers \<Rightarrow> state \<Rightarrow> response \<times> state" where
  "upload_blob a env r name h st =
     (let expected = (if 0 < q_length r then q_length r else 0);
          (res, store) = put (e_blob env) (a_digest a) (s_store st) name
             \<lparr>rd_bytes = q_body r, rd_fails = q_body_fails r\<rparr> expected;
          st1 = st\<lparr>s_store := store\<rparr>
      in case res of
           Inl e \<Rightarrow> (write_blob_error h e, st1)
         | Inr i \<Rightarrow>
             (write_json h 200 (marshal_blob_info i),
              record_run a env r (zero_run\<lparr>r_operation := ''upload'', r_name := i_name i, r_bytes := i_bytes i,
                r_write_ms := i_write_ms i, r_total_ms := ms_since (e_total_us env)\<rparr>) st1))"

text \<open>
  A download whose copy fails (the client is gone, or the handle is a directory) has sent its
  headers, ends without its body, and is not recorded.
\<close>

definition download_blob :: "app \<Rightarrow> srv_env \<Rightarrow> request \<Rightarrow> string \<Rightarrow> headers \<Rightarrow> state \<Rightarrow> response \<times> state" where
  "download_blob a env r name h st =
     (case open_blob (e_blob env) (s_store st) name of
        Inl e \<Rightarrow> (write_blob_error h e, st)
      | Inr (handle, i) \<Rightarrow>
          let h1 = set_header ''X-Blob-Sha256'' (i_sha256 i)
                    (set_header ''Content-Length'' (itoa (i_bytes i))
                      (set_header ''Content-Type'' ''application/octet-stream'' h))
          in case handle of
               DirHandle \<Rightarrow> (\<lparr>p_status = 200, p_headers = h1, p_body = BrokenBody\<rparr>, st)
             | FileHandle data \<Rightarrow>
                 if e_copy_fails env then (\<lparr>p_status = 200, p_headers = h1, p_body = BrokenBody\<rparr>, st)
                 else (\<lparr>p_status = 200, p_headers = h1, p_body = FileBody data\<rparr>,
                       record_run a env r (zero_run\<lparr>r_operation := ''download'', r_name := i_name i,
                         r_bytes := i_bytes i, r_read_ms := ms_since (e_read_us env),
                         r_total_ms := ms_since (e_total_us env)\<rparr>) st))"

definition delete_blob_handler :: "srv_env \<Rightarrow> string \<Rightarrow> headers \<Rightarrow> state \<Rightarrow> response \<times> state" where
  "delete_blob_handler env name h st =
     (let (e, store) = delete_blob (e_blob env) (s_store st) name; st1 = st\<lparr>s_store := store\<rparr>
      in case e of
           Some err \<Rightarrow> (write_blob_error h err, st1)
         | None \<Rightarrow> (\<lparr>p_status = 204, p_headers = h, p_body = NoBody\<rparr>, st1))"

definition bench_probe :: "app \<Rightarrow> srv_env \<Rightarrow> request \<Rightarrow> headers \<Rightarrow> state \<Rightarrow> response \<times> state" where
  "bench_probe a env r h st =
     (let experiment_id = query_get r ''experiment_id''
      in if \<not> valid_experiment_id experiment_id then (write_error h 400 ''invalid experiment_id'', st)
         else case parse_int64 (query_get r ''sample_index'') of
                None \<Rightarrow> (write_error h 400 ''sample_index must be a positive integer'', st)
              | Some sample_index \<Rightarrow>
                  if sample_index \<le> 0 then (write_error h 400 ''sample_index must be a positive integer'', st)
                  else case parse_route_mode (query_get r ''route_mode'') of
                         None \<Rightarrow> (write_error h 400 ''invalid route_mode'', st)
                       | Some route_mode \<Rightarrow>
                           (api_info a r h,
                            record_run a env r (zero_run\<lparr>r_operation := ''handshake'',
                              r_name := probe_name experiment_id sample_index, r_experiment_id := experiment_id,
                              r_sample_index := sample_index, r_route_mode := route_mode\<rparr>) st))"

section \<open>Client timings (timings.go)\<close>

record timings_request =
  tr_operation :: string
  tr_name :: string
  tr_route_mode :: string
  tr_experiment_id :: string
  tr_sample_index :: int
  tr_times :: curl_times

definition zero_timings :: timings_request where
  "zero_timings = \<lparr>tr_operation = [], tr_name = [], tr_route_mode = [], tr_experiment_id = [], tr_sample_index = 0,
     tr_times = \<lparr>t_namelookup = Fin 0, t_connect = Fin 0, t_appconnect = Fin 0, t_pretransfer = Fin 0,
       t_starttransfer = Fin 0, t_redirect = Fin 0, t_total = Fin 0\<rparr>\<rparr>"

datatype timing_field =
    TOperation | TName | TRouteMode | TExperimentID | TSampleIndex | TNamelookup | TConnect
  | TAppconnect | TPretransfer | TStarttransfer | TRedirect | TTotal

definition timing_fields :: "(string \<times> timing_field) list" where
  "timing_fields =
     [(''operation'', TOperation), (''name'', TName), (''route_mode'', TRouteMode),
      (''experiment_id'', TExperimentID), (''sample_index'', TSampleIndex),
      (''time_namelookup'', TNamelookup), (''time_connect'', TConnect), (''time_appconnect'', TAppconnect),
      (''time_pretransfer'', TPretransfer), (''time_starttransfer'', TStarttransfer),
      (''time_redirect'', TRedirect), (''time_total'', TTotal)]"

definition find_timing_field :: "string \<Rightarrow> timing_field option" where
  "find_timing_field k = map_of timing_fields (fold_key k)"

fun get_timing :: "timing_field \<Rightarrow> timings_request \<Rightarrow> go_val" where
  "get_timing TOperation t = VStr (tr_operation t)"
| "get_timing TName t = VStr (tr_name t)"
| "get_timing TRouteMode t = VStr (tr_route_mode t)"
| "get_timing TExperimentID t = VStr (tr_experiment_id t)"
| "get_timing TSampleIndex t = VInt (tr_sample_index t)"
| "get_timing TNamelookup t = VFloat (t_namelookup (tr_times t))"
| "get_timing TConnect t = VFloat (t_connect (tr_times t))"
| "get_timing TAppconnect t = VFloat (t_appconnect (tr_times t))"
| "get_timing TPretransfer t = VFloat (t_pretransfer (tr_times t))"
| "get_timing TStarttransfer t = VFloat (t_starttransfer (tr_times t))"
| "get_timing TRedirect t = VFloat (t_redirect (tr_times t))"
| "get_timing TTotal t = VFloat (t_total (tr_times t))"

fun set_timing :: "timing_field \<Rightarrow> go_val \<Rightarrow> timings_request \<Rightarrow> timings_request" where
  "set_timing TOperation v t = t\<lparr>tr_operation := as_str v\<rparr>"
| "set_timing TName v t = t\<lparr>tr_name := as_str v\<rparr>"
| "set_timing TRouteMode v t = t\<lparr>tr_route_mode := as_str v\<rparr>"
| "set_timing TExperimentID v t = t\<lparr>tr_experiment_id := as_str v\<rparr>"
| "set_timing TSampleIndex v t = t\<lparr>tr_sample_index := as_int v\<rparr>"
| "set_timing TNamelookup v t = t\<lparr>tr_times := (tr_times t)\<lparr>t_namelookup := as_float v\<rparr>\<rparr>"
| "set_timing TConnect v t = t\<lparr>tr_times := (tr_times t)\<lparr>t_connect := as_float v\<rparr>\<rparr>"
| "set_timing TAppconnect v t = t\<lparr>tr_times := (tr_times t)\<lparr>t_appconnect := as_float v\<rparr>\<rparr>"
| "set_timing TPretransfer v t = t\<lparr>tr_times := (tr_times t)\<lparr>t_pretransfer := as_float v\<rparr>\<rparr>"
| "set_timing TStarttransfer v t = t\<lparr>tr_times := (tr_times t)\<lparr>t_starttransfer := as_float v\<rparr>\<rparr>"
| "set_timing TRedirect v t = t\<lparr>tr_times := (tr_times t)\<lparr>t_redirect := as_float v\<rparr>\<rparr>"
| "set_timing TTotal v t = t\<lparr>tr_times := (tr_times t)\<lparr>t_total := as_float v\<rparr>\<rparr>"

fun decode_timings :: "json \<Rightarrow> timings_request option" where
  "decode_timings (JObj mems) = dec_members find_timing_field get_timing set_timing mems zero_timings"
| "decode_timings JNull = Some zero_timings"
| "decode_timings _ = None"

text \<open>
  Decoding the body behind \<open>http.MaxBytesReader\<close>: the decoder reads until one value is
  complete and ignores what follows it.
\<close>

datatype timings_body = TooLargeBody | InvalidBody | TimingsBody timings_request

definition read_timings :: "app \<Rightarrow> request \<Rightarrow> timings_body" where
  "read_timings a r =
     (case a_scan a (take max_json_body_bytes (q_body r)) of
        Complete j \<Rightarrow> (case decode_timings j of None \<Rightarrow> InvalidBody | Some t \<Rightarrow> TimingsBody t)
      | Malformed \<Rightarrow> InvalidBody
      | Incomplete \<Rightarrow> if max_json_body_bytes < length (q_body r) then TooLargeBody else InvalidBody)"

definition attach_client_timings :: "app \<Rightarrow> srv_env \<Rightarrow> request \<Rightarrow> headers \<Rightarrow> state \<Rightarrow> response \<times> state" where
  "attach_client_timings a env r h st =
     (case read_timings a r of
        TooLargeBody \<Rightarrow> (write_error h 413 ''JSON body too large'', st)
      | InvalidBody \<Rightarrow> (write_error h 400 ''invalid JSON'', st)
      | TimingsBody t \<Rightarrow>
          if \<not> valid_timing_operation (tr_operation t) then (write_error h 400 ''invalid operation'', st)
          else if tr_experiment_id t \<noteq> [] \<and> \<not> valid_experiment_id (tr_experiment_id t)
            then (write_error h 400 ''invalid experiment_id'', st)
          else case parse_route_mode (tr_route_mode t) of
                 None \<Rightarrow> (write_error h 400 ''invalid route_mode'', st)
               | Some route_mode \<Rightarrow>
                   let meta = \<lparr>m_route_mode = route_mode, m_experiment_id = tr_experiment_id t,
                               m_sample_index = tr_sample_index t\<rparr>;
                       name = (if m_experiment_id meta \<noteq> [] \<and> 0 < m_sample_index meta
                               then probe_name (m_experiment_id meta) (m_sample_index meta) else tr_name t)
                   in if name = []
                      then (write_error h 400 ''name or experiment_id with sample_index is required'', st)
                      else
                        let (res, l) = merge_client_timings (a_width a) (e_log env) name (tr_operation t)
                               (phases_from_curl (tr_times t)) meta (s_log st);
                            st1 = st\<lparr>s_log := l\<rparr>
                        in case res of
                             Inl e \<Rightarrow>
                               (write_error h
                                  (if errors_is e ErrNoMatchingRun then 404
                                   else if errors_is e ErrAmbiguousRun then 409 else 500)
                                  (error_text log_sentinel_text e), st1)
                           | Inr run \<Rightarrow> (write_json h 200 (marshal_run run), st1))"

section \<open>Routing and protection of a request\<close>

datatype route =
    Healthz | Readyz | CaCrt | ApiInfo | ApiResults | PostTimings | BenchProbe | ListBlobs
  | GenerateBlob | DownloadBlob | UploadBlob | DeleteBlob | Dashboard | StaticFiles

definition routes :: "route routes" where
  "routes =
     [(''GET'', [Lit ''healthz''], Healthz),
      (''GET'', [Lit ''readyz''], Readyz),
      (''GET'', [Lit ''ca.crt''], CaCrt),
      (''GET'', [Lit ''api'', Lit ''info''], ApiInfo),
      (''GET'', [Lit ''api'', Lit ''results''], ApiResults),
      (''POST'', [Lit ''api'', Lit ''results'', Lit ''timings''], PostTimings),
      (''GET'', [Lit ''api'', Lit ''bench'', Lit ''probe''], BenchProbe),
      (''GET'', [Lit ''api'', Lit ''blobs''], ListBlobs),
      (''POST'', [Lit ''api'', Lit ''blobs''], GenerateBlob),
      (''GET'', [Lit ''api'', Lit ''blobs'', Wild], DownloadBlob),
      (''PUT'', [Lit ''api'', Lit ''blobs'', Wild], UploadBlob),
      (''DELETE'', [Lit ''api'', Lit ''blobs'', Wild], DeleteBlob),
      (''GET'', [Lit ''/''], Dashboard),
      (''GET'', [Lit ''static'', Multi], StaticFiles)]"

text \<open>
  \<open>http.StripPrefix\<close> in front of the file server, which sets and removes headers.
\<close>

definition static_files :: "app \<Rightarrow> request \<Rightarrow> headers \<Rightarrow> response" where
  "static_files a r h =
     (case url_path r of
        None \<Rightarrow> http_error h 404 ''404 page not found''
      | Some path \<Rightarrow>
          if \<not> has_prefix path ''/static/'' \<or> \<not> has_prefix (q_target r) ''/static/''
          then http_error h 404 ''404 page not found''
          else let (status, hs, data) = a_static a r (drop 8 path)
               in \<lparr>p_status = status, p_headers = fold (\<lambda>(k, v). case v of Some x \<Rightarrow> set_header k x | None \<Rightarrow> AList.delete k) hs h, p_body = TextBody data\<rparr>)"

fun dispatch_route :: "app \<Rightarrow> srv_env \<Rightarrow> route \<Rightarrow> string list \<Rightarrow> request \<Rightarrow> headers \<Rightarrow> state \<Rightarrow> response \<times> state" where
  "dispatch_route a env Healthz vs r h st = (healthz h, st)"
| "dispatch_route a env Readyz vs r h st = (readyz a h, st)"
| "dispatch_route a env CaCrt vs r h st = (serve_ca_file a h, st)"
| "dispatch_route a env ApiInfo vs r h st = (api_info a r h, st)"
| "dispatch_route a env ApiResults vs r h st = (api_results a env r h st, st)"
| "dispatch_route a env PostTimings vs r h st = attach_client_timings a env r h st"
| "dispatch_route a env BenchProbe vs r h st = bench_probe a env r h st"
| "dispatch_route a env ListBlobs vs r h st = (list_blobs_handler env h st, st)"
| "dispatch_route a env GenerateBlob vs r h st = generate_blob a env r h st"
| "dispatch_route a env DownloadBlob vs r h st = download_blob a env r (hd vs) h st"
| "dispatch_route a env UploadBlob vs r h st = upload_blob a env r (hd vs) h st"
| "dispatch_route a env DeleteBlob vs r h st = delete_blob_handler env (hd vs) h st"
| "dispatch_route a env Dashboard vs r h st = (dashboard a h, st)"
| "dispatch_route a env StaticFiles vs r h st = (static_files a r h, st)"

definition redirect_to :: "request \<Rightarrow> headers \<Rightarrow> string \<Rightarrow> response" where
  "redirect_to r h path =
     (let location = escape path @ (if q_query r = [] then [] else CHR ''?'' # q_query r);
          h1 = set_header ''Location'' location h
      in if q_method r \<in> {''GET'', ''HEAD''}
         then \<lparr>p_status = 301, p_headers = set_header ''Content-Type'' ''text/html; charset=utf-8'' h1,
               p_body = (if q_method r = ''GET'' then LinkBody location else NoBody)\<rparr>
         else \<lparr>p_status = 301, p_headers = h1, p_body = NoBody\<rparr>)"

fun separate :: "string list \<Rightarrow> string list" where
  "separate [] = []"
| "separate [m] = [m]"
| "separate (m # n # rest) = (m @ '', '') # separate (n # rest)"

definition mux :: "app \<Rightarrow> srv_env \<Rightarrow> request \<Rightarrow> headers \<Rightarrow> state \<Rightarrow> response \<times> state" where
  "mux a env r h st =
     (case find_handler routes r of
        Handle route vs \<Rightarrow> dispatch_route a env route vs r h st
      | Redirect path \<Rightarrow> (redirect_to r h path, st)
      | MethodNotAllowed allowed \<Rightarrow>
          (http_error (set_header ''Allow'' (concat (separate allowed)) h) 405 ''Method Not Allowed'', st)
      | NoRoute \<Rightarrow> (http_error h 404 ''404 page not found'', st)
      | BadTarget \<Rightarrow> (\<lparr>p_status = 400, p_headers = h, p_body = NoBody\<rparr>, st))"

text \<open>\<open>wrap\<close> around the mux.\<close>

definition wrap :: "app \<Rightarrow> srv_env \<Rightarrow> request \<Rightarrow> string \<Rightarrow> state \<Rightarrow> response \<times> state" where
  "wrap a env r path st =
     (if write_token (a_cfg a) \<noteq> [] \<and> write_protected (q_method r) path \<and> \<not> authorized a r
      then (write_error security_headers 401 ''unauthorized'', st)
      else mux a env r security_headers st)"

text \<open>
  The server: \<open>net/http\<close> itself refuses a target that does not decode and answers \<open>OPTIONS *\<close>, before
  any handler runs; the body of the answer to a HEAD request is not sent.
\<close>

definition general_options :: "request \<Rightarrow> bool" where
  "general_options r \<longleftrightarrow> q_method r = ''OPTIONS'' \<and> q_target r = ''*''"

definition serve :: "app \<Rightarrow> srv_env \<Rightarrow> request \<Rightarrow> state \<Rightarrow> response \<times> state" where
  "serve a env r st =
     (case url_path r of
        None \<Rightarrow> (\<lparr>p_status = 400, p_headers = [(''Content-Type'', ''text/plain; charset=utf-8''), (''Connection'', ''close'')],
                   p_body = TextBody ''400 Bad Request''\<rparr>, st)
      | Some path \<Rightarrow>
          if general_options r then (\<lparr>p_status = 200, p_headers = [(''Content-Length'', ''0'')], p_body = NoBody\<rparr>, st)
          else let (p, st') = wrap a env r path st
          in (if q_method r = ''HEAD'' then p\<lparr>p_body := NoBody\<rparr> else p, st'))"

section \<open>Lemmas\<close>

subsection \<open>Which requests reach a handler\<close>

lemma path_segments_Cons:
  "path_segments (CHR ''/'' # p) \<noteq> []"
  by (simp add: path_segments_def Let_def)

lemma match_pattern_lit: "match_pattern (Lit l # ps) ss = Some vs \<longleftrightarrow> (\<exists>rest. ss = l # rest \<and> match_pattern ps rest = Some vs)"
  by (cases ss) auto

lemma match_pattern_wild: "match_pattern [Wild] ss = Some vs \<longleftrightarrow> (\<exists>s. ss = [s] \<and> s \<noteq> ''/'' \<and> vs = [s])"
  by (cases ss; cases "tl ss") auto

lemma match_pattern_Nil: "match_pattern [] ss = Some vs \<longleftrightarrow> ss = [] \<and> vs = []"
  by (cases ss) auto

lemmas match_simps = match_pattern_lit match_pattern_wild match_pattern_Nil

text \<open>The method and the decoded path of a request that reaches a handler.\<close>

definition get_like :: "string \<Rightarrow> bool" where
  "get_like m \<longleftrightarrow> m \<in> {''GET'', ''HEAD''}"

lemma route_methods:
  assumes "(m, p, h) \<in> set routes"
  shows "m \<in> {''GET'', ''POST'', ''PUT'', ''DELETE''}"
    and "h = PostTimings \<or> h = GenerateBlob \<longleftrightarrow> m = ''POST''"
    and "h = UploadBlob \<longleftrightarrow> m = ''PUT''" and "h = DeleteBlob \<longleftrightarrow> m = ''DELETE''"
    and "h = CaCrt \<Longrightarrow> p = [Lit ''ca.crt'']"
    and "h = BenchProbe \<Longrightarrow> p = [Lit ''api'', Lit ''bench'', Lit ''probe'']"
    and "h = DownloadBlob \<Longrightarrow> p = [Lit ''api'', Lit ''blobs'', Wild]"
  using assms by (auto simp: routes_def)

lemma decoded_path_of_segments:
  assumes "unescape False (CHR ''/'' # p) = Some d" and "path_segments (CHR ''/'' # p) = ss" and "last ss \<noteq> ''/''"
  shows "d = CHR ''/'' # join_with CHR ''/'' ss"
  using decoded_path [OF assms(1) path_segments_last] assms(2,3) by simp

text \<open>
  The guard and the mux agree: a request that the mux would send to a handler that writes, or
  that hands out the CA or a blob, is one that the guard protects.
\<close>

definition protected_route :: "route \<Rightarrow> bool" where
  "protected_route h \<longleftrightarrow> h \<in> {CaCrt, PostTimings, BenchProbe, GenerateBlob, DownloadBlob, UploadBlob, DeleteBlob}"

lemma guard_covers_routes:
  assumes "find_handler routes r = Handle h vs" and "protected_route h" and "url_path r = Some path"
  shows "write_protected (q_method r) path"
proof -
  from assms(1) obtain p pat d where d: "url_path r = Some d" "unescape False (CHR ''/'' # p) = Some d"
    "match_route routes (q_method r) (CHR ''/'' # p) = Some (pat, h, vs)"
    by (rule find_handler_Handle)
  have path: "d = path" using d(1) assms(3) by simp
  note sound = match_route_sound [OF d(3)]
  then obtain m where m: "(m, pat, h) \<in> set routes" "q_method r = m \<or> q_method r = ''HEAD'' \<and> m = ''GET''"
    "match_pattern pat (path_segments (CHR ''/'' # p)) = Some vs" by auto
  note rm = route_methods [OF m(1)]
  show ?thesis
  proof (cases "h \<in> {CaCrt, BenchProbe, DownloadBlob}")
    case False
    with assms(2) rm(2-4) m(2) show ?thesis by (auto simp: protected_route_def write_protected_def)
  next
    case True
    then have get: "q_method r \<in> {''GET'', ''HEAD''}" using rm(1-4) m(2) by auto
    have "path = ''/ca.crt'' \<or> path = ''/api/bench/probe'' \<or> has_prefix path ''/api/blobs/''"
      using True
    proof (elim insertE)
      assume "h = CaCrt"
      with rm(5) m(3) have "path_segments (CHR ''/'' # p) = [''ca.crt'']" by (simp add: match_simps)
      from decoded_path_of_segments [OF d(2) this] path show ?thesis by simp
    next
      assume "h = BenchProbe"
      with rm(6) m(3) have "path_segments (CHR ''/'' # p) = [''api'', ''bench'', ''probe'']" by (simp add: match_simps)
      from decoded_path_of_segments [OF d(2) this] path show ?thesis by simp
    next
      assume "h = DownloadBlob"
      with rm(7) m(3) obtain s where "path_segments (CHR ''/'' # p) = [''api'', ''blobs'', s]" "s \<noteq> ''/''"
        by (auto simp: match_simps)
      from decoded_path_of_segments [OF d(2) this(1)] this(2) path show ?thesis by simp
    qed simp
    with get show ?thesis by (auto simp: write_protected_def)
  qed
qed

lemma unprotected_dispatch_state:
  "\<not> protected_route h \<Longrightarrow> snd (dispatch_route a env h vs r hs st) = st"
  by (cases h) (simp_all add: protected_route_def)

lemma mux_state:
  "(\<And>h vs. find_handler routes r = Handle h vs \<Longrightarrow> \<not> protected_route h) \<Longrightarrow> snd (mux a env r hs st) = st"
  by (auto simp: mux_def unprotected_dispatch_state split: dispatch.splits)

lemma unprotected_no_file:
  "\<not> protected_route h \<Longrightarrow> p_body (fst (dispatch_route a env h vs r hs st)) \<noteq> FileBody data"
  by (cases h)
     (auto simp: protected_route_def healthz_def readyz_def api_info_def api_results_def list_blobs_handler_def
        dashboard_def static_files_def http_error_def write_body_def write_json_def write_error_def Let_def case_prod_beta
        split: option.splits sum.splits)

subsection \<open>Headers\<close>

definition secured :: "headers \<Rightarrow> bool" where
  "secured h \<longleftrightarrow> (\<forall>(k, v) \<in> set security_headers. map_of h k = Some v)"

lemma security_headers_list:
  "security_headers = [(''Content-Security-Policy'', content_security_policy), (''X-Content-Type-Options'', ''nosniff''),
     (''X-Frame-Options'', ''DENY''), (''Referrer-Policy'', ''no-referrer''), (''Cache-Control'', ''no-store'')]"
  by (simp add: security_headers_def set_header_def)

lemma secured_start [simp]: "secured security_headers"
  by (simp add: secured_def security_headers_list)

lemma secured_set [simp]:
  "k \<notin> fst ` set security_headers \<Longrightarrow> secured (set_header k v h) = secured h"
proof -
  assume k: "k \<notin> fst ` set security_headers"
  have "map_of (set_header k v h) j = map_of h j" if "(j, w) \<in> set security_headers" for j w
    using k that by (auto simp: set_header_def update_conv' image_iff)
  then show ?thesis by (auto simp: secured_def)
qed

lemma secured_content [simp]:
  "secured (set_header ''Content-Type'' v h) = secured h" "secured (set_header ''Content-Length'' v h) = secured h"
  "secured (set_header ''Content-Disposition'' v h) = secured h" "secured (set_header ''X-Blob-Sha256'' v h) = secured h"
  "secured (set_header ''Location'' v h) = secured h" "secured (set_header ''Allow'' v h) = secured h"
  by (simp_all add: security_headers_list)

lemma secured_http_error [simp]: "secured h \<Longrightarrow> secured (p_headers (http_error h status msg))"
  by (auto simp: http_error_def secured_def set_header_def update_conv' delete_conv' security_headers_list)

lemma secured_json [simp]:
  "secured (p_headers (write_json h status j)) = secured h" "secured (p_headers (write_error h status msg)) = secured h"
  "secured (p_headers (write_body h status d)) = secured h" "secured (p_headers (write_blob_error h e)) = secured h"
  by (simp_all add: write_error_def write_json_def write_body_def write_blob_error_def)

lemma secured_dispatch:
  assumes "secured hs" and "h \<noteq> StaticFiles"
  shows "secured (p_headers (fst (dispatch_route a env h vs r hs st)))"
  using assms
  by (cases h)
     (auto simp: healthz_def readyz_def serve_ca_file_def api_info_def api_results_def attach_client_timings_def
        bench_probe_def list_blobs_handler_def generate_blob_def download_blob_def upload_blob_def
        delete_blob_handler_def dashboard_def Let_def
        split: option.splits sum.splits prod.splits handle.splits timings_body.splits)

lemma secured_mux:
  assumes "secured hs" and "\<And>vs. find_handler routes r \<noteq> Handle StaticFiles vs"
  shows "secured (p_headers (fst (mux a env r hs st)))"
proof (cases "find_handler routes r")
  case (Handle h vs)
  then have "h \<noteq> StaticFiles" using assms(2) by auto
  with Handle assms(1) show ?thesis by (simp add: mux_def secured_dispatch)
qed (use assms(1) in \<open>simp_all add: mux_def redirect_to_def Let_def\<close>)

lemma not_general_options [simp]: "q_method r \<noteq> ''OPTIONS'' \<Longrightarrow> \<not> general_options r"
  by (simp add: general_options_def)

lemma serve_headers:
  "url_path r = Some path \<Longrightarrow> \<not> general_options r \<Longrightarrow> p_headers (fst (serve a env r st)) = p_headers (fst (wrap a env r path st))"
  by (simp add: serve_def case_prod_beta)

lemma serve_status_state:
  "url_path r = Some path \<Longrightarrow> \<not> general_options r \<Longrightarrow> p_status (fst (serve a env r st)) = p_status (fst (wrap a env r path st))"
  "url_path r = Some path \<Longrightarrow> \<not> general_options r \<Longrightarrow> snd (serve a env r st) = snd (wrap a env r path st)"
  by (simp_all add: serve_def case_prod_beta)

subsection \<open>Requests for blobs\<close>

lemma name_char_plain:
  assumes "name_char c"
  shows "c \<noteq> CHR ''%''" and "c \<noteq> CHR ''/''" and "\<not> should_escape c"
proof -
  show "c \<noteq> CHR ''%''" "c \<noteq> CHR ''/''" using assms by (auto simp: name_char_def in_range_def)
  show "\<not> should_escape c" using assms by (auto simp: name_char_def should_escape_def alnum_def)
qed

lemma unescape_plain: "CHR ''%'' \<notin> set s \<Longrightarrow> unescape False s = Some s"
  by (induction s) auto

lemma decode_segment_plain: "CHR ''%'' \<notin> set s \<Longrightarrow> decode_segment s = s"
  by (simp add: decode_segment_def unescape_plain)

text \<open>A name that the store accepts, other than the dot, makes a path that the mux leaves alone.\<close>

definition blob_target :: "string \<Rightarrow> string" where
  "blob_target name = ''/api/blobs/'' @ name"

lemma valid_name_chars:
  assumes "validate_name name = None"
  shows "list_all name_char name" and "name \<noteq> []" and "name \<noteq> ''..''"
proof -
  have "\<not> contains name ''..''" using assms by (auto simp: validate_name_def split: if_splits)
  then show "name \<noteq> ''..''" by (auto simp: has_prefix_def)
  show "list_all name_char name" "name \<noteq> []"
    using assms by (auto simp: validate_name_def blob_name_pattern_def split: if_splits)
qed

lemma split_api_blobs:
  assumes "CHR ''/'' \<notin> set name"
  shows "split_on CHR ''/'' (''api/blobs/'' @ name) = [''api'', ''blobs'', name]"
  using assms by (simp add: split_on_absent)

lemma blob_target_facts:
  assumes "validate_name name = None" and "name \<noteq> ''.''"
  shows "unescape False (blob_target name) = Some (blob_target name)"
    and "escaped_path (blob_target name) = blob_target name"
    and "clean_path (blob_target name) = blob_target name"
    and "path_segments (blob_target name) = [''api'', ''blobs'', name]"
proof -
  note c = valid_name_chars [OF assms(1)]
  have no: "CHR ''%'' \<notin> set name" "CHR ''/'' \<notin> set name"
    using c(1) name_char_plain(1) [of "CHR ''%''"] name_char_plain(2) [of "CHR ''/''"] by (auto simp: list_all_iff)
  note sp = split_api_blobs [OF no(2), simplified]
  show "unescape False (blob_target name) = Some (blob_target name)"
    using no by (simp add: blob_target_def unescape_plain)
  have "valid_encoded name" using c(1) name_char_plain(3) by (auto simp: valid_encoded_def list_all_iff)
  then have "valid_encoded (blob_target name)"
    by (simp add: blob_target_def valid_encoded_def should_escape_def alnum_def in_range_def)
  then show "escaped_path (blob_target name) = blob_target name" by (simp add: escaped_path_def)
  have "clean_segments [] [''api'', ''blobs'', name] = [''api'', ''blobs'', name]"
    using c(2,3) assms(2) by simp
  moreover have "last (blob_target name) \<noteq> CHR ''/''"
    using no(2) c(2) last_in_set [of name] by (auto simp: blob_target_def simp del: last_in_set)
  ultimately show "clean_path (blob_target name) = blob_target name"
    by (simp add: clean_path_def blob_target_def sp Let_def)
  have "decode_segment ''api'' = ''api''" "decode_segment ''blobs'' = ''blobs''" "decode_segment name = name"
    using no by (simp_all add: decode_segment_plain)
  then show "path_segments (blob_target name) = [''api'', ''blobs'', name]"
    using c(2) by (simp add: path_segments_def blob_target_def sp Let_def)
qed

lemma blob_route:
  assumes "validate_name name = None" and "name \<noteq> ''.''" and "q_target r = blob_target name"
    and "(q_method r, h) \<in> {(''GET'', DownloadBlob), (''HEAD'', DownloadBlob), (''PUT'', UploadBlob), (''DELETE'', DeleteBlob)}"
  shows "find_handler routes r = Handle h [name]" and "url_path r = Some (blob_target name)"
proof -
  note t = blob_target_facts [OF assms(1,2)]
  have "name \<noteq> ''/''" using valid_name_chars(1) [OF assms(1)] name_char_plain(2) [of "CHR ''/''"] by auto
  then have m: "match_route routes (q_method r) (blob_target name) = Some ([Lit ''api'', Lit ''blobs'', Wild], h, [name])"
  proof -
    from assms(4) consider "q_method r = ''GET'' \<and> h = DownloadBlob" | "q_method r = ''HEAD'' \<and> h = DownloadBlob"
      | "q_method r = ''PUT'' \<and> h = UploadBlob" | "q_method r = ''DELETE'' \<and> h = DeleteBlob" by blast
    then show ?thesis
      using \<open>name \<noteq> ''/''\<close> by cases (simp_all add: match_route_def t(4) routes_def)
  qed
  have "last (blob_target name) \<noteq> CHR ''/''"
    using valid_name_chars [OF assms(1)] name_char_plain(2) [of "CHR ''/''"] last_in_set [of name]
    by (auto simp: blob_target_def list_all_iff simp del: last_in_set)
  then have "exact_match (match_route routes (q_method r) (blob_target name)) (blob_target name)"
    by (simp add: m exact_match_def) (simp add: blob_target_def)
  moreover have "blob_target name \<noteq> ''*''" by (simp add: blob_target_def)
  moreover have "q_method r \<noteq> ''CONNECT''" using assms(4) by auto
  ultimately show "find_handler routes r = Handle h [name]"
    by (simp add: find_handler_def url_path_def assms(3) t slash_redirect_def m Let_def)
  show "url_path r = Some (blob_target name)" by (simp add: url_path_def assms(3) t)
qed

subsection \<open>Names of probes\<close>

lemma itoa_positive: "0 < i \<Longrightarrow> itoa i = nat_digits (nat i)"
  by (simp add: itoa_def)

lemma itoa_no_dash: "0 < i \<Longrightarrow> CHR ''-'' \<notin> set (itoa i)"
  using nat_digits_chars [of "CHR ''-''" "nat i"] by (auto simp: itoa_positive in_range_def)

text \<open>Two strings split at their last separator in one way only.\<close>

lemma split_last_unique:
  assumes "a @ c # s = b @ c # t" and "c \<notin> set s" and "c \<notin> set t"
  shows "a = b \<and> s = t"
proof -
  from assms(1) have "rev s @ c # rev a = rev t @ c # rev b" by (metis append.assoc append_Cons append_Nil rev.simps(2) rev_append)
  then have "takeWhile (\<lambda>x. x \<noteq> c) (rev s @ c # rev a) = takeWhile (\<lambda>x. x \<noteq> c) (rev t @ c # rev b)" by simp
  moreover have "takeWhile (\<lambda>x. x \<noteq> c) (rev s @ c # rev a) = rev s" "takeWhile (\<lambda>x. x \<noteq> c) (rev t @ c # rev b) = rev t"
    using assms(2,3) by (simp_all add: takeWhile_append)
  ultimately show ?thesis using assms(1) by simp
qed

section \<open>Properties\<close>

text \<open>A server with a token, an empty store and an empty log, used by the concrete instances.\<close>

definition sample_app :: app where
  "sample_app = \<lparr>a_cfg = default_config\<lparr>write_token := ''secret''\<rparr>,
     a_material = \<lparr>ma_certificate = \<lparr>tc_chain = [], tc_leaf = None\<rparr>, ma_ca_pem = ''ca'', ma_cert_pem = ''cert'', ma_generated = True\<rparr>,
     a_hostname = ''pod'', a_ready = True,
     a_tls = \<lparr>te_secure = [], te_insecure = [], te_parse_cert = (\<lambda>_. None)\<rparr>,
     a_digest = checksum_stub, a_width = (\<lambda>_. 200), a_scan = (\<lambda>_. Malformed), a_index = Some ''page'',
     a_static = (\<lambda>_ _. (404, [], []))\<rparr>"

definition sample_state :: state where
  "sample_state = \<lparr>s_store = small_store, s_log = no_log, s_tracker = new_tracker\<rparr>"

definition sample_env :: srv_env where
  "sample_env = \<lparr>e_blob = calm, e_log = log_calm, e_total_us = 2000, e_read_us = 1000, e_copy_fails = False\<rparr>"

definition sample_put :: request where
  "sample_put = sample_request\<lparr>q_method := ''PUT'', q_target := blob_target ''a'', q_body := ''hello'', q_length := 5\<rparr>"

definition bearer :: "request \<Rightarrow> request" where
  "bearer r = r\<lparr>q_headers := [(''Authorization'', ''Bearer secret'')]\<rparr>"

lemma bearer_simps [simp]:
  "q_method (bearer r) = q_method r" "q_target (bearer r) = q_target r" "q_query (bearer r) = q_query r"
  "q_body (bearer r) = q_body r" "q_body_fails (bearer r) = q_body_fails r" "q_length (bearer r) = q_length r"
  by (simp_all add: bearer_def)

lemma sample_put_simps [simp]:
  "q_method sample_put = ''PUT''" "q_target sample_put = blob_target ''a''" "q_body sample_put = ''hello''"
  "q_length sample_put = 5" "\<not> q_body_fails sample_put"
  by (simp_all add: sample_put_def sample_request_def)

lemma sample_simps [simp]:
  "s_store sample_state = small_store" "s_log sample_state = no_log" "s_tracker sample_state = new_tracker"
  "e_blob sample_env = calm" "e_log sample_env = log_calm" "\<not> e_copy_fails sample_env"
  "a_digest sample_app = checksum_stub" "a_width sample_app = (\<lambda>_. 200)" "write_token (a_cfg sample_app) = ''secret''"
  by (simp_all add: sample_state_def sample_env_def sample_app_def)

lemma sample_name [simp]: "validate_name ''a'' = None"
  by code_simp

lemma sample_put_ready [simp]: "put_ready calm small_store ''a''"
  by (simp add: put_ready_def small_store_def stored_def is_subdir_def)

lemma sample_unauthorized [simp]: "\<not> authorized sample_app sample_put"
  by code_simp

lemma sample_authorized [simp]: "authorized sample_app (bearer r)"
proof -
  have "header_get (bearer r) ''Authorization'' = ''Bearer secret''"
    by (simp add: bearer_def header_get_def)
  moreover have "bearer_token ''Bearer secret'' = ''secret''" by code_simp
  ultimately show ?thesis by (simp add: authorized_def sample_app_def)
qed

text \<open>C2: With a token set, a request that does not carry it changes nothing, neither the blobs nor the
  log nor the connection tracker; on a protected method or path it is answered 401, and no answer at all
  carries the content of a blob.\<close>

theorem unauthorized_changes_nothing:
  assumes "write_token (a_cfg a) \<noteq> []" and "\<not> authorized a r"
  shows "snd (serve a env r st) = st
     \<and> (\<forall>path. url_path r = Some path \<longrightarrow> write_protected (q_method r) path \<longrightarrow> p_status (fst (serve a env r st)) = 401)
     \<and> (\<forall>data. p_body (fst (serve a env r st)) \<noteq> FileBody data)"
proof (cases "url_path r")
  case None
  then show ?thesis by (simp add: serve_def)
next
  case (Some path)
  show ?thesis
  proof (cases "write_protected (q_method r) path")
    case True
    then have "\<not> general_options r" by (auto simp: general_options_def write_protected_def)
    with True assms Some show ?thesis by (simp add: serve_def wrap_def write_error_def write_json_def)
  next
    case False
    have un: "\<not> protected_route h" if "find_handler routes r = Handle h vs" for h vs
      using guard_covers_routes [OF that _ Some] False by blast
    have "p_body (fst (mux a env r hs st)) \<noteq> FileBody data" for hs data
      using un by (auto simp: mux_def redirect_to_def http_error_def Let_def unprotected_no_file split: dispatch.splits)
    with mux_state [OF un] Some False show ?thesis by (auto simp: serve_def wrap_def case_prod_beta)
  qed
qed

lemma unauthorized_changes_nothing_witness:
  "snd (serve sample_app sample_env sample_put sample_state) = sample_state
     \<and> p_status (fst (serve sample_app sample_env sample_put sample_state)) = 401"
proof -
  have "url_path sample_put = Some (blob_target ''a'')" "write_protected (q_method sample_put) (blob_target ''a'')"
    using blob_route(2) [of "''a''" sample_put UploadBlob] by (simp_all add: sample_put_def write_protected_def)
  moreover have "write_token (a_cfg sample_app) \<noteq> []" by (simp add: sample_app_def)
  ultimately show ?thesis
    using unauthorized_changes_nothing [of sample_app sample_put sample_env sample_state] by simp
qed

text \<open>C20: Every answer of the program's handler, its errors, redirects and refusals included, carries the five
  security headers with exactly the program's values; only the file server may change them.  A target that does
  not decode and \<open>OPTIONS *\<close> never reach the handler: \<open>net/http\<close> answers them itself, without these headers.\<close>

theorem security_headers_everywhere:
  assumes "url_path r = Some path" and "\<not> general_options r" and "\<And>vs. find_handler routes r \<noteq> Handle StaticFiles vs"
  shows "\<forall>(k, v) \<in> set security_headers. map_of (p_headers (fst (serve a env r st))) k = Some v"
proof -
  have "secured (p_headers (fst (wrap a env r path st)))"
    using assms(3) secured_start by (simp add: wrap_def secured_mux)
  then show ?thesis using serve_headers [OF assms(1,2)] by (simp add: secured_def)
qed

lemma security_headers_everywhere_witness:
  "map_of (p_headers (fst (serve sample_app sample_env sample_put sample_state))) ''X-Frame-Options'' = Some ''DENY''"
proof -
  have "find_handler routes sample_put = Handle UploadBlob [''a'']" "url_path sample_put = Some (blob_target ''a'')"
    using blob_route [of "''a''" sample_put UploadBlob] by (simp_all add: sample_put_def)
  with security_headers_everywhere [of sample_put _ sample_app sample_env sample_state]
  show ?thesis by (auto simp: security_headers_list)
qed

text \<open>The name of a probe's run determines the experiment and the sample, whatever dashes and digits the
  experiment's name has: two probes share a name only if they are the same sample.\<close>

theorem probe_name_injective:
  assumes "0 < i" and "0 < j"
  shows "probe_name e i = probe_name f j \<longleftrightarrow> e = f \<and> i = j"
proof
  assume "probe_name e i = probe_name f j"
  then have "e @ CHR ''-'' # itoa i = f @ CHR ''-'' # itoa j" by (simp add: probe_name_def)
  from split_last_unique [OF this] itoa_no_dash assms have "e = f" "itoa i = itoa j" by auto
  then show "e = f \<and> i = j" using assms nat_digits_inj [of "nat i" "nat j"] by (simp add: itoa_positive)
qed simp

lemma probe_name_injective_witness:
  "probe_name ''a-1'' 2 \<noteq> probe_name ''a'' 12"
  using probe_name_injective [of 2 12 "''a-1''" "''a''"] by simp

text \<open>C9: Every upload is answered, and its length decides how: on a directory in which nothing hinders it,
  a body of exactly the announced length within the limit, or of unknown length within the limit, is stored
  (200); a longer announcement or a longer body is refused (413); any other disagreement of the two is a bad
  request (400).  \<open>MAX_BLOB_BYTES\<close> is below 2^63-1 (\<open>put_ready\<close>).\<close>

definition upload_status :: "int \<Rightarrow> int \<Rightarrow> int \<Rightarrow> int" where
  "upload_status limit announced len =
     (if 0 < announced \<and> announced \<le> limit then
        (if len = announced then 200 else if announced = limit \<and> announced < len then 413 else 400)
      else if announced \<le> 0 \<and> len \<le> limit then 200
      else 413)"

theorem upload_is_answered:
  assumes "put_ready (e_blob env) (s_store st) name" and "\<not> q_body_fails r"
    and "write_token (a_cfg a) = [] \<or> authorized a r"
    and "q_method r = ''PUT''" and "q_target r = blob_target name"
  shows "p_status (fst (serve a env r st))
      = upload_status (st_max (s_store st)) (q_length r) (int (length (q_body r)))"
proof -
  have name: "validate_name name = None" "name \<noteq> ''.''" and max: "0 < st_max (s_store st)"
    using assms(1) by (auto simp: put_ready_def)
  note route = blob_route [OF name assms(5), of UploadBlob]
  have "p_status (fst (serve a env r st)) = p_status (fst (upload_blob a env r name security_headers st))"
    using route assms(3,4) by (auto simp: serve_status_state wrap_def mux_def)
  also have "\<dots> = upload_status (st_max (s_store st)) (q_length r) (int (length (q_body r)))"
  proof -
    have p: "fst (put (e_blob env) (a_digest a) (s_store st) name \<lparr>rd_bytes = q_body r, rd_fails = q_body_fails r\<rparr>
        (if 0 < q_length r then q_length r else 0)) = Inl e \<Longrightarrow>
      p_status (fst (upload_blob a env r name h st)) = p_status (write_blob_error h e)" for e h
      by (simp add: upload_blob_def Let_def case_prod_beta)
    have q: "fst (put (e_blob env) (a_digest a) (s_store st) name \<lparr>rd_bytes = q_body r, rd_fails = q_body_fails r\<rparr>
        (if 0 < q_length r then q_length r else 0)) = Inr i \<Longrightarrow>
      p_status (fst (upload_blob a env r name h st)) = 200" for i h
      by (simp add: upload_blob_def Let_def case_prod_beta write_json_def)
    note out = put_outcome [OF assms(1), of "\<lparr>rd_bytes = q_body r, rd_fails = q_body_fails r\<rparr>" "a_digest a"
        "if 0 < q_length r then q_length r else 0"]
    show ?thesis
      using max assms(2) p q out
      by (auto simp: upload_status_def write_blob_error_def write_error_def write_json_def split: if_splits)
  qed
  finally show ?thesis .
qed

lemma upload_is_answered_witness:
  "p_status (fst (serve sample_app sample_env (bearer sample_put) sample_state)) = 200"
  using upload_is_answered [of sample_env sample_state "''a''" "bearer sample_put" sample_app]
  by (simp add: upload_status_def)

text \<open>C21: The results page: of a readable log the newest runs first, at most as many as the query asks for
  and never more than 10000, with the number of all runs and a flag that says whether runs were left out;
  a limit that is not a positive integer is a bad request.\<close>

theorem results_page:
  assumes "contents (a_width a) (s_log st) = Some runs" and "readable (e_log env)"
  shows "(case results_limit r of
        None \<Rightarrow> api_results a env r h st = write_error h 400 ''limit must be a positive integer''
      | Some n \<Rightarrow> 0 < n \<and> n \<le> 10000
          \<and> api_results a env r h st = write_json h 200 (map_option (\<lambda>js. JObj
              [(''limit'', JInt n), (''runs'', JArr js), (''total'', JInt (int (length runs))),
               (''truncated'', JBool (n < int (length runs)))])
              (marshal_all marshal_run (rev (drop (length runs - nat n) runs)))))"
proof (cases "results_limit r")
  case None
  then show ?thesis by (simp add: api_results_def)
next
  case (Some n)
  then have n: "0 < n" "n \<le> 10000"
    by (auto simp: results_limit_def Let_def results_api_default_limit_def results_api_max_limit_def
        split: option.splits if_splits)
  then have "read_newest_page (a_width a) (e_log env) n (s_log st)
      = Inr (rev (drop (length runs - nat n) runs), length runs)"
    using read_all_contents [OF assms(2,1)]
    by (auto simp: read_newest_page_def Let_def reverse_rev take_rev)
  moreover have "length (rev (drop (length runs - nat n) runs)) < length runs \<longleftrightarrow> n < int (length runs)"
    using n by (simp add: nat_less_iff) linarith
  ultimately show ?thesis using Some n by (simp add: api_results_def)
qed

lemma results_page_witness:
  "api_results sample_app sample_env (sample_request\<lparr>q_query := ''limit=3''\<rparr>) [] sample_state
     = write_json [] 200 (Some (JObj [(''limit'', JInt 3), (''runs'', JArr []), (''total'', JInt 0), (''truncated'', JBool False)]))"
proof -
  have "results_limit (sample_request\<lparr>q_query := ''limit=3''\<rparr>) = Some 3" by code_simp
  then show ?thesis
    using results_page [of sample_app sample_state "[]" sample_env "sample_request\<lparr>q_query := ''limit=3''\<rparr>" "[]"] by simp
qed





end
