(* ===== verification/Requests.thy ===== *)
theory Requests
  imports Server
begin

text \<open>
  Sequences of requests: how the handlers of package \<open>internal/server\<close> use the blob store and the
  run log.  \<open>request_op\<close> is the store operation that a request stands for; the lemmas show that
  \<open>serve\<close> moves the store only by that operation, so what holds of sequences of store operations
  holds of sequences of requests.
\<close>

section \<open>The store operation of a request\<close>

definition request_op :: "srv_env \<Rightarrow> request \<Rightarrow> store_op option" where
  "request_op env r =
     (case find_handler routes r of
        Handle h vs \<Rightarrow>
          (case h of
             GenerateBlob \<Rightarrow> map_option (Generate (e_blob env) (query_get r ''name'')) (parse_int64 (query_get r ''size''))
           | UploadBlob \<Rightarrow> Some (Put (e_blob env) (hd vs) \<lparr>rd_bytes = q_body r, rd_fails = q_body_fails r\<rparr>
                                   (if 0 < q_length r then q_length r else 0))
           | DeleteBlob \<Rightarrow> Some (Delete (e_blob env) (hd vs))
           | _ \<Rightarrow> None)
      | _ \<Rightarrow> None)"

lemma record_run_parts [simp]:
  "s_store (record_run a env r run st) = s_store st"
  "s_log (record_run a env r run st)
     = snd (append (a_width a) (e_log env) (fst (run_of_request a r run (s_tracker st))) (s_log st))"
  by (simp_all add: record_run_def Let_def case_prod_beta)

lemma generate_blob_store:
  "s_store (snd (generate_blob a env r h st)) = s_store st
   \<or> (\<exists>sz. parse_int64 (query_get r ''size'') = Some sz
        \<and> s_store (snd (generate_blob a env r h st))
          = store_step (a_digest a) (Generate (e_blob env) (query_get r ''name'') sz) (s_store st))"
  by (auto simp: generate_blob_def Let_def case_prod_beta split: option.splits sum.splits)

lemma upload_blob_store:
  "s_store (snd (upload_blob a env r name h st))
     = store_step (a_digest a) (Put (e_blob env) name \<lparr>rd_bytes = q_body r, rd_fails = q_body_fails r\<rparr>
         (if 0 < q_length r then q_length r else 0)) (s_store st)"
  by (simp add: upload_blob_def Let_def case_prod_beta split: sum.splits)

lemma delete_handler_store:
  "s_store (snd (delete_blob_handler env name h st)) = store_step digest (Delete (e_blob env) name) (s_store st)"
  by (simp add: delete_blob_handler_def Let_def case_prod_beta split: option.splits)

lemma other_handlers_store:
  "s_store (snd (download_blob a env r name h st)) = s_store st"
  "s_store (snd (bench_probe a env r h st)) = s_store st"
  "s_store (snd (attach_client_timings a env r h st)) = s_store st"
  by (simp_all add: download_blob_def bench_probe_def attach_client_timings_def Let_def case_prod_beta
      split: sum.splits option.splits handle.splits timings_body.splits prod.splits)

text \<open>A request moves the store by its operation or not at all.\<close>

lemma serve_store:
  "s_store (snd (serve a env r st)) = s_store st
   \<or> (\<exists>op. request_op env r = Some op \<and> s_store (snd (serve a env r st)) = store_step (a_digest a) op (s_store st))"
proof (cases "s_store (snd (mux a env r security_headers st)) = s_store st")
  case True
  then show ?thesis by (auto simp: serve_def wrap_def case_prod_beta split: option.splits)
next
  case False
  then obtain h vs where h: "find_handler routes r = Handle h vs" by (auto simp: mux_def split: dispatch.splits)
  have "\<exists>op. request_op env r = Some op
      \<and> s_store (snd (mux a env r security_headers st)) = store_step (a_digest a) op (s_store st)"
    using False h generate_blob_store [of a env r security_headers st]
    by (cases h) (auto simp: mux_def request_op_def upload_blob_store other_handlers_store
        delete_handler_store [where digest = "a_digest a"] simp del: store_step.simps)
  then show ?thesis by (auto simp: serve_def wrap_def case_prod_beta split: option.splits)
qed

section \<open>Sequences of requests\<close>

type_synonym trace = "(srv_env \<times> request) list"

fun serve_next :: "app \<Rightarrow> srv_env \<times> request \<Rightarrow> state \<Rightarrow> state" where
  "serve_next a (env, r) st = snd (serve a env r st)"

abbreviation serve_all :: "app \<Rightarrow> trace \<Rightarrow> state \<Rightarrow> state" where
  "serve_all a tr st \<equiv> fold (serve_next a) tr st"

fun trace_op :: "srv_env \<times> request \<Rightarrow> store_op option" where
  "trace_op (env, r) = request_op env r"

lemma trace_store:
  "\<exists>ops. s_store (serve_all a tr st) = fold (store_step (a_digest a)) ops (s_store st)
     \<and> (\<forall>op \<in> set ops. \<exists>x \<in> set tr. trace_op x = Some op)"
proof (induction tr arbitrary: st)
  case (Cons x tr)
  obtain env r where x: "x = (env, r)" by fastforce
  from Cons [of "snd (serve a env r st)"] obtain ops where
    ops: "s_store (serve_all a (x # tr) st) = fold (store_step (a_digest a)) ops (s_store (snd (serve a env r st)))"
    "\<forall>op \<in> set ops. \<exists>x \<in> set tr. trace_op x = Some op" by (auto simp: x)
  from serve_store [of a env r st] show ?case
  proof
    assume "s_store (snd (serve a env r st)) = s_store st"
    with ops show ?thesis by auto
  next
    assume "\<exists>op. request_op env r = Some op \<and> s_store (snd (serve a env r st)) = store_step (a_digest a) op (s_store st)"
    then obtain op where "request_op env r = Some op"
      "s_store (snd (serve a env r st)) = store_step (a_digest a) op (s_store st)" by blast
    with ops x show ?thesis by (intro exI [of _ "op # ops"]) auto
  qed
qed (auto intro: exI [of _ "[]"])

lemma trace_store_all:
  assumes "\<forall>x \<in> set tr. \<forall>op. trace_op x = Some op \<longrightarrow> P op"
  obtains ops where "s_store (serve_all a tr st) = fold (store_step (a_digest a)) ops (s_store st)" and "list_all P ops"
proof -
  from trace_store obtain ops where
    "s_store (serve_all a tr st) = fold (store_step (a_digest a)) ops (s_store st)"
    "\<forall>op \<in> set ops. \<exists>x \<in> set tr. trace_op x = Some op" by blast
  with assms that show thesis by (force simp: list_all_iff)
qed

text \<open>A request that is answered 200 on a blob's path was handled by its handler.\<close>

lemma upload_served:
  assumes "q_method r = ''PUT''" and "q_target r = blob_target name"
    and "validate_name name = None" and "name \<noteq> ''.''"
    and "p_status (fst (serve a env r st)) = 200"
  obtains i s' where "put (e_blob env) (a_digest a) (s_store st) name \<lparr>rd_bytes = q_body r, rd_fails = q_body_fails r\<rparr>
      (if 0 < q_length r then q_length r else 0) = (Inr i, s')"
    and "s_store (snd (serve a env r st)) = s'"
proof -
  let ?put = "put (e_blob env) (a_digest a) (s_store st) name \<lparr>rd_bytes = q_body r, rd_fails = q_body_fails r\<rparr>
      (if 0 < q_length r then q_length r else 0)"
  note route = blob_route [OF assms(3,4,2), of UploadBlob]
  have m: "mux a env r security_headers st = upload_blob a env r name security_headers st"
    using route(1) assms(1) by (simp add: mux_def)
  have ok: "serve a env r st = upload_blob a env r name security_headers st"
    using assms(1,5) route(2) m
    by (auto simp: serve_def wrap_def write_error_def write_json_def case_prod_beta split: if_splits)
  show thesis
  proof (cases "fst ?put")
    case (Inl e)
    then have "p_status (fst (upload_blob a env r name security_headers st)) \<noteq> 200"
      by (simp add: upload_blob_def Let_def case_prod_beta write_blob_error_def write_error_def write_json_def)
    with ok assms(5) show thesis by simp
  next
    case (Inr i)
    then have "?put = (Inr i, snd ?put)" by (metis prod.collapse)
    with that [of i "snd ?put"] show thesis using ok upload_blob_store [of a env r name security_headers st] by simp
  qed
qed

lemma download_served:
  assumes "q_method r = ''GET''" and "q_target r = blob_target name"
    and "validate_name name = None" and "name \<noteq> ''.''"
    and "write_token (a_cfg a) = [] \<or> authorized a r"
  shows "serve a env r st = download_blob a env r name security_headers st"
  using assms blob_route [OF assms(3,4,2), of DownloadBlob]
  by (auto simp: serve_def wrap_def mux_def case_prod_beta)

lemma request_op_env: "request_op env r = Some op \<Longrightarrow> op_env op = e_blob env"
  by (auto simp: request_op_def split: dispatch.splits route.splits)

text \<open>The methods that can change the store.\<close>

lemma request_op_method:
  "request_op env r = Some op \<Longrightarrow> q_method r \<in> {''PUT'', ''POST'', ''DELETE''}"
proof -
  assume op: "request_op env r = Some op"
  then obtain h vs where h: "find_handler routes r = Handle h vs" "h \<in> {GenerateBlob, UploadBlob, DeleteBlob}"
    by (auto simp: request_op_def split: dispatch.splits route.splits)
  from h(1) obtain p pat where "match_route routes (q_method r) (CHR ''/'' # p) = Some (pat, h, vs)"
    by (rule find_handler_Handle)
  from match_route_sound [OF this] obtain m where "(m, pat, h) \<in> set routes"
    "q_method r = m \<or> q_method r = ''HEAD'' \<and> m = ''GET''" by auto
  with h(2) route_methods(2-4) show ?thesis by fastforce
qed

lemma sample_upload_status: "p_status (fst (serve sample_app sample_env (bearer sample_put) sample_state)) = 200"
proof -
  have "find_handler routes (bearer sample_put) = Handle UploadBlob [''a'']" "url_path (bearer sample_put) = Some (blob_target ''a'')"
    using blob_route [of "''a''" "bearer sample_put" UploadBlob] by simp_all
  then show ?thesis
    by (simp add: serve_def wrap_def mux_def case_prod_beta upload_blob_def Let_def write_json_def sample_put)
qed

end
