(* ===== verification/Recording.thy ===== *)
theory Recording
  imports Requests
begin

text \<open>
  What requests record: every run that a handler appends has the types of the struct's fields, with
  strings of bounded length, and so the log keeps its invariant along any sequence of requests.
\<close>

section \<open>Typed values\<close>

lemma typed_ascii: "list_all (\<lambda>c. of_char c < (0x80::nat)) s \<Longrightarrow> length s \<le> 4096 \<Longrightarrow> typed_val (VStr s)"
  by (simp add: valid_utf8_ascii)

lemma id_char_ascii: "id_char c \<Longrightarrow> of_char c < (0x80::nat)"
  by (auto simp: id_char_def name_char_def in_range_def)

lemma name_chars_ascii: "list_all name_char s \<Longrightarrow> list_all (\<lambda>c. of_char c < (0x80::nat)) s"
  using id_char_ascii by (auto simp: list_all_iff id_char_def)

lemma typed_blob_name: "validate_name n = None \<Longrightarrow> typed_val (VStr n)"
  using name_chars_ascii [OF valid_name_chars(1)]
  by (intro typed_ascii) (auto simp: validate_name_def max_blob_name_length_def split: if_splits)

lemma valid_experiment_id_facts:
  assumes "valid_experiment_id e"
  shows "list_all (\<lambda>c. of_char c < (0x80::nat)) e" and "length e \<le> 128"
proof -
  show ascii: "list_all (\<lambda>c. of_char c < (0x80::nat)) e"
    using assms id_char_ascii by (auto simp: valid_experiment_id_def list_all_iff)
  with assms show "length e \<le> 128"
    by (simp add: valid_experiment_id_def max_experiment_id_length_def rune_count_ascii)
qed

lemma typed_experiment_id: "valid_experiment_id e \<Longrightarrow> typed_val (VStr e)"
  using valid_experiment_id_facts by (intro typed_ascii) fastforce+

lemma nat_digits_length: "n < 10 ^ k \<Longrightarrow> 0 < k \<Longrightarrow> length (nat_digits n) \<le> k"
proof (induction k arbitrary: n)
  case (Suc k)
  show ?case
  proof (cases "n < 10")
    case True
    then show ?thesis by (simp add: nat_digits.simps [of n])
  next
    case False
    with Suc.prems have "n div 10 < 10 ^ k" by (auto simp: less_mult_imp_div_less mult.commute)
    moreover have "0 < k" using Suc.prems(1) False by (cases k) auto
    ultimately show ?thesis using Suc.IH [of "n div 10"] False by (simp add: nat_digits.simps [of n])
  qed
qed simp

lemma typed_probe_name:
  assumes "valid_experiment_id e" and "0 < i" and "int64 i"
  shows "typed_val (VStr (probe_name e i))"
proof -
  note e = valid_experiment_id_facts [OF assms(1)]
  have "nat i < 10 ^ 19" using assms(2,3) by (simp add: int64_def nat_less_iff)
  from nat_digits_length [OF this] have "length (itoa i) \<le> 19" using assms(2) by (simp add: itoa_positive)
  moreover have "list_all (\<lambda>c. of_char c < (0x80::nat)) (itoa i)"
    using nat_digits_chars [of _ "nat i"] assms(2) by (fastforce simp: itoa_positive list_all_iff in_range_def)
  ultimately show ?thesis using e by (intro typed_ascii) (auto simp: probe_name_def)
qed

lemma typed_route_mode: "parse_route_mode s = Some m \<Longrightarrow> typed_val (VStr m)"
  by (rule typed_ascii) (auto simp: parse_route_mode_def Let_def allowed_route_modes_def split: if_splits)

lemma typed_ms [simp]: "typed_float (ms_since us)" "typed_float (micros_to_ms us)"
  unfolding ms_since_def micros_to_ms_def by (rule typed_fdiv)+

text \<open>A run is typed when every field is.\<close>

lemma typed_run_fields: "typed_run r \<longleftrightarrow> list_all (\<lambda>f. typed_val (get_field f r)) run_fields"
  by (simp add: typed_run_def list_all_iff set_run_fields)

lemmas typed_run_all = typed_run_fields [unfolded run_fields_def list.pred_inject get_field.simps]

lemma typed_plain [simp]:
  "typed_val (VStr [])" "typed_val (VInt 0)" "typed_val (VTime t)" "typed_val (VBool b)" "typed_val (VFloat (Fin 0))"
  by (simp_all add: valid_utf8_ascii int64_def del: typed_val.simps(2)) (simp add: int64_def)

declare typed_val.simps [simp del]

lemma typed_zero_run [simp]: "typed_run zero_run"
  unfolding typed_run_all by (simp add: zero_run_def)

section \<open>The recorded run\<close>

text \<open>
  What is asked of a request's surroundings: the addresses, the negotiated names and the
  certificate's key are ordinary strings and numbers.
\<close>

definition typed_source :: "app \<Rightarrow> request \<Rightarrow> bool" where
  "typed_source a r \<longleftrightarrow>
     (let i = from_request (a_tls a) r (a_hostname a) (Some (ma_certificate (a_material a)))
      in typed_val (VStr (ri_client_addr i)) \<and> typed_val (VStr (ri_tls_version i)) \<and> typed_val (VStr (ri_cipher i))
         \<and> typed_val (VStr (ri_alpn i)) \<and> typed_val (VStr (ri_key_algorithm i)) \<and> typed_val (VInt (ri_key_size i))
         \<and> typed_val (VStr (ri_key_curve i)))"

lemma typed_parsed: "parse_int64 s = Some i \<Longrightarrow> typed_val (VInt i)"
  by (simp add: typed_val.simps parse_int64_range)

lemma typed_bench_headers:
  assumes "typed_run run"
  shows "typed_run (apply_bench_headers r run)"
proof -
  have mode: "typed_run (x\<lparr>r_route_mode := m\<rparr>)" if "typed_run x" "parse_route_mode v = Some m" for x m v
    using that(1) typed_route_mode [OF that(2)] unfolding typed_run_all by simp
  have exp: "typed_run (x\<lparr>r_experiment_id := e\<rparr>)" if "typed_run x" "valid_experiment_id e" for x e
    using that(1) typed_experiment_id [OF that(2)] unfolding typed_run_all by simp
  have idx: "typed_run (x\<lparr>r_sample_index := i\<rparr>)" if "typed_run x" "parse_int64 v = Some i" for x i v
    using that(1) typed_parsed [OF that(2)] unfolding typed_run_all by simp
  show ?thesis
    using assms by (auto simp: apply_bench_headers_def Let_def intro: mode exp idx split: option.splits)
qed

lemma consume_typed: "typed_float (fst (fst (consume m tk)))"
  by (auto simp: consume_def consume_handshake_def Let_def case_prod_beta split: option.splits)

lemma run_of_request_typed:
  assumes "typed_source a r" and "typed_run run"
  shows "typed_run (fst (run_of_request a r run tk))"
proof -
  let ?i = "from_request (a_tls a) r (a_hostname a) (Some (ma_certificate (a_material a)))"
  let ?r1 = "run\<lparr>r_tls := ri_tls ?i, r_client_addr := ri_client_addr ?i, r_tls_version := ri_tls_version ?i,
      r_cipher := ri_cipher ?i, r_alpn := ri_alpn ?i\<rparr>"
  have "typed_run ?r1" using assms unfolding typed_run_all typed_source_def Let_def by simp
  from typed_bench_headers [OF this] have r2: "typed_run (apply_bench_headers r ?r1)" .
  have key: "typed_run (x\<lparr>r_key_algorithm := ri_key_algorithm ?i, r_key_size := ri_key_size ?i, r_key_curve := ri_key_curve ?i\<rparr>)"
    if "typed_run x" for x
    using that assms(1) unfolding typed_run_all typed_source_def Let_def by simp
  have reused: "typed_run (x\<lparr>r_tls_reused := b\<rparr>)" if "typed_run x" for x b
    using that unfolding typed_run_all by simp
  have ms: "typed_run (x\<lparr>r_tls_handshake_server_ms := fst (fst (consume m tk))\<rparr>)" if "typed_run x" for x m
    using that consume_typed [of m tk] unfolding typed_run_all by simp
  show ?thesis
    using r2 by (auto simp: run_of_request_def Let_def case_prod_beta intro!: key reused ms)
qed

section \<open>File sizes\<close>

text \<open>Every file has a size that fits 64 bits, and so has every file that an operation writes.\<close>

definition sizes_ok :: "(string \<Rightarrow> string) \<Rightarrow> store \<Rightarrow> bool" where
  "sizes_ok digest s \<longleftrightarrow> st_max s \<le> max_int64 \<and> (\<forall>x. length (digest x) \<le> 64)
     \<and> (\<forall>k data t. stored s k = Some (File data t) \<longrightarrow> int (length data) \<le> max_int64)"

lemma hex_encode_length: "length (hex_encode b) = 2 * length b"
  by (induction b) (auto simp: hex_encode_def)

lemma sizes_okI:
  assumes "sizes_ok digest s" and "st_max s' = st_max s"
    and "\<And>k data t. stored s' k = Some (File data t) \<Longrightarrow> stored s k = Some (File data t) \<or> int (length data) \<le> max_int64"
  shows "sizes_ok digest s'"
  using assms by (auto simp: sizes_ok_def) blast

lemma write_from_sizes:
  assumes "sizes_ok digest s" and "\<not> io_fails env RemoveTemp"
    and "write_from env digest s name src limit expected exact = (r, s', rest)"
  shows "sizes_ok digest s'"
proof (rule sizes_okI [OF assms(1) write_from_store(1) [OF assms(3)]])
  fix k data t
  assume k: "stored s' k = Some (File data t)"
  have max: "st_max s \<le> max_int64" and dig: "\<forall>x. length (digest x) \<le> 64"
    using assms(1) by (simp_all add: sizes_ok_def)
  have side: "int (length (sidecar_text digest x)) \<le> max_int64" for x
    using spec [OF dig, of x] by (simp add: hex_encode_length)
  show "stored s k = Some (File data t) \<or> int (length data) \<le> max_int64"
  proof (cases r)
    case (Inl e)
    from assms(3) [unfolded Inl] assms(2) show ?thesis
    proof (cases rule: write_from_error)
      case (cut_sidecar u)
      with k max side [of "blob_data src limit"] show ?thesis by (auto simp: stored_def split: if_splits)
    qed (use k max in \<open>auto simp: stored_def split: if_splits\<close>)
  next
    case (Inr i)
    note ok = write_from_ok(1,3) [OF assms(3) [unfolded Inr]]
    with k max side [of "blob_data src limit"] show ?thesis by (auto simp: stored_def split: if_splits)
  qed
qed

lemma delete_blob_sizes: "sizes_ok digest s \<Longrightarrow> sizes_ok digest (snd (delete_blob env s name))"
  using delete_blob_get by (intro sizes_okI [OF _ delete_blob_store]) (auto, metis option.distinct(1))

lemma put_sizes:
  assumes "sizes_ok digest s" and "\<not> io_fails env RemoveTemp"
  shows "sizes_ok digest (snd (put env digest s name body expected))"
proof -
  obtain r s' where p: "put env digest s name body expected = (r, s')" by fastforce
  from p have "sizes_ok digest s'"
    by (cases rule: put_cases) (use assms write_from_sizes delete_blob_sizes in blast)+
  with p show ?thesis by simp
qed

lemma generate_sizes:
  assumes "sizes_ok digest s" and "\<not> io_fails env RemoveTemp"
  shows "sizes_ok digest (snd (generate env digest s name n))"
proof -
  have [simp]: "sizes_ok digest (t\<lparr>st_random := x\<rparr>) = sizes_ok digest t" for t x
    by (simp add: sizes_ok_def stored_def)
  show ?thesis
    using assms write_from_sizes [OF assms, of name _ n n True]
    by (auto simp: generate_def Let_def case_prod_beta split: option.splits) (metis prod.collapse)
qed

interpretation store_sizes: invariant_system "store_step digest" "sizes_ok digest" "\<lambda>op. \<not> io_fails (op_env op) RemoveTemp"
  for digest
proof
  fix s op
  assume "sizes_ok digest s" and "\<not> io_fails (op_env op) RemoveTemp"
  then show "sizes_ok digest (store_step digest op s)"
    by (cases op) (simp_all add: put_sizes generate_sizes delete_blob_sizes)
qed

lemma open_blob_bytes:
  assumes "open_blob env s name = Inr (FileHandle data, i)" and "sizes_ok digest s"
  shows "typed_val (VInt (i_bytes i))" and "i_name i = name" and "validate_name name = None"
proof -
  from assms(1) obtain n t where "stored s n = Some (File data t)" and i: "i_bytes i = int (length data)"
    and name: "i_name i = name" "validate_name name = None"
    by (auto simp: open_blob_def stored_def Let_def split: option.splits if_splits target.splits entry.splits)
  with assms(2) have "i_bytes i \<le> max_int64" by (auto simp: sizes_ok_def)
  then show "typed_val (VInt (i_bytes i))" using i by (simp add: typed_val.simps int64_def)
  show "i_name i = name" "validate_name name = None" by (rule name)+
qed

section \<open>The log under requests\<close>

lemma generate_info:
  assumes "generate env digest s name n = (Inr i, s')"
  shows "i_name i = name" and "validate_name name = None" and "i_bytes i = n" and "typed_float (i_write_ms i)"
proof -
  from assms obtain random s1 rest where wf: "write_from env digest s name random n n True = (Inr i, s1, rest)"
    and v: "validate_name name = None"
    by (auto simp: generate_def Let_def split: option.splits if_splits prod.splits)
  show "i_name i = name" "typed_float (i_write_ms i)" using write_from_ok(2) [OF wf] by simp_all
  show "i_bytes i = n" using assms by (rule generate_ok)
  show "validate_name name = None" by (rule v)
qed

lemma put_result_info:
  assumes "put env digest s name body expected = (Inr i, s')" and "st_max s \<le> max_int64"
  shows "i_name i = name" and "validate_name name = None" and "typed_val (VInt (i_bytes i))" and "typed_float (i_write_ms i)"
proof -
  show "validate_name name = None" using assms(1) by (auto simp: put_def split: option.splits)
  from assms(1) show "i_name i = name" "typed_val (VInt (i_bytes i))" "typed_float (i_write_ms i)"
    by (cases rule: put_cases; use write_from_ok(2,3) assms(2) in \<open>fastforce simp: typed_val.simps int64_def\<close>)+
qed

lemma record_inv:
  assumes "log_inv (a_width a) base (s_log st)" and "typed_source a r" and "typed_run run" and "\<not> lg_fails (e_log env) WriteLog"
  shows "log_inv (a_width a) base (s_log (record_run a env r run st))"
  using append_inv [OF assms(1) run_of_request_typed [OF assms(2,3)] assms(4)] by simp

text \<open>The runs that the handlers hand to \<open>record\<close>.\<close>

lemma base_run_typed:
  assumes "typed_val (VStr name)" and "typed_val (VInt b)" and "typed_float w" and "typed_float rd" and "typed_float t"
    and "op \<in> {''generate'', ''upload'', ''download'', ''handshake''}"
  shows "typed_run (zero_run\<lparr>r_operation := op, r_name := name, r_bytes := b, r_write_ms := w, r_read_ms := rd, r_total_ms := t\<rparr>)"
proof -
  have "typed_val (VStr op)" using assms(6) by (auto intro!: typed_ascii)
  then show ?thesis using assms(1-5) unfolding typed_run_all by (simp add: zero_run_def)
qed

lemma probe_run_typed:
  assumes "valid_experiment_id e" and "parse_int64 raw = Some i" and "0 < i" and "parse_route_mode v = Some m"
  shows "typed_run (zero_run\<lparr>r_operation := ''handshake'', r_name := probe_name e i, r_experiment_id := e,
      r_sample_index := i, r_route_mode := m\<rparr>)"
proof -
  have "typed_val (VStr ''handshake'')" by (rule typed_ascii) simp_all
  then show ?thesis
    using typed_probe_name [OF assms(1,3) parse_int64_range [OF assms(2)]] typed_experiment_id [OF assms(1)]
      typed_parsed [OF assms(2)] typed_route_mode [OF assms(4)]
    unfolding typed_run_all by (simp add: zero_run_def)
qed

lemma generate_run_typed:
  "generate env digest s name n = (Inr i, s') \<Longrightarrow> typed_val (VInt n) \<Longrightarrow>
     typed_run (zero_run\<lparr>r_operation := ''generate'', r_name := i_name i, r_bytes := i_bytes i,
       r_write_ms := i_write_ms i, r_total_ms := ms_since us\<rparr>)"
  using base_run_typed [of "i_name i" "i_bytes i" "i_write_ms i" "Fin 0" "ms_since us" "''generate''"]
    generate_info [of env digest s name n i s'] typed_blob_name
  by (simp add: zero_run_def)

lemma put_run_typed:
  "put env digest s name body expected = (Inr i, s') \<Longrightarrow> st_max s \<le> max_int64 \<Longrightarrow>
     typed_run (zero_run\<lparr>r_operation := ''upload'', r_name := i_name i, r_bytes := i_bytes i,
       r_write_ms := i_write_ms i, r_total_ms := ms_since us\<rparr>)"
  using base_run_typed [of "i_name i" "i_bytes i" "i_write_ms i" "Fin 0" "ms_since us" "''upload''"]
    put_result_info [of env digest s name body expected i s'] typed_blob_name
  by (simp add: zero_run_def)

lemma download_run_typed:
  "open_blob env s name = Inr (FileHandle data, i) \<Longrightarrow> sizes_ok digest s \<Longrightarrow>
     typed_run (zero_run\<lparr>r_operation := ''download'', r_name := i_name i, r_bytes := i_bytes i,
       r_read_ms := ms_since vs, r_total_ms := ms_since us\<rparr>)"
  using base_run_typed [of "i_name i" "i_bytes i" "Fin 0" "ms_since vs" "ms_since us" "''download''"]
    open_blob_bytes [of env s name data i digest] typed_blob_name
  by (simp add: zero_run_def)

text \<open>The sample index of decoded timings is a 64-bit integer.\<close>

lemma dec_members_invariant:
  assumes "dec_members fnd get upd mems r = Some r'" and "P r"
    and "\<And>f j v r. P r \<Longrightarrow> dec_val (get f r) j = Some v \<Longrightarrow> P (upd f v r)"
  shows "P r'"
  using assms(1,2)
proof (induction mems arbitrary: r)
  case (Cons m mems)
  obtain k j where m: "m = (k, j)" by fastforce
  show ?case
  proof (cases "fnd k")
    case None
    with Cons m show ?thesis by simp
  next
    case (Some f)
    with Cons.prems(1) m obtain v where "dec_val (get f r) j = Some v" "dec_members fnd get upd mems (upd f v r) = Some r'"
      by (auto split: option.splits)
    with Cons.IH assms(3) Cons.prems(2) show ?thesis by blast
  qed
qed simp

lemma decode_timings_index: "decode_timings j = Some t \<Longrightarrow> int64 (tr_sample_index t)"
proof -
  have zero: "int64 (tr_sample_index zero_timings)" by (simp add: zero_timings_def int64_def)
  have step: "int64 (tr_sample_index (set_timing f v t))"
    if "int64 (tr_sample_index t)" "dec_val (get_timing f t) k = Some v" for f v t k
    using that by (cases f; cases k) (auto simp: as_int_def split: if_splits)
  assume "decode_timings j = Some t"
  then show ?thesis
    by (cases j) (auto simp: zero dest!: dec_members_invariant [where P = "\<lambda>t. int64 (tr_sample_index t)", OF _ zero step])
qed

lemma read_timings_index: "read_timings a r = TimingsBody t \<Longrightarrow> int64 (tr_sample_index t)"
  by (auto simp: read_timings_def split: json_scan.splits option.splits if_splits dest: decode_timings_index)

section \<open>The invariant of the server\<close>

definition server_inv :: "app \<Rightarrow> go_val list list \<Rightarrow> state \<Rightarrow> bool" where
  "server_inv a base st \<longleftrightarrow> log_inv (a_width a) base (s_log st) \<and> sizes_ok (a_digest a) (s_store st)"

text \<open>No appended line is cut short, no temporary file stays, and the request's surroundings are ordinary.\<close>

fun server_event_ok :: "app \<Rightarrow> srv_env \<times> request \<Rightarrow> bool" where
  "server_event_ok a (env, r) \<longleftrightarrow> \<not> lg_fails (e_log env) WriteLog \<and> \<not> io_fails (e_blob env) RemoveTemp \<and> typed_source a r"

lemma timings_log:
  assumes "read_timings a r = TimingsBody t"
  shows "s_log (snd (attach_client_timings a env r h st)) = s_log st
    \<or> (\<exists>name m. parse_route_mode (tr_route_mode t) = Some m
         \<and> (tr_experiment_id t \<noteq> [] \<longrightarrow> valid_experiment_id (tr_experiment_id t))
         \<and> s_log (snd (attach_client_timings a env r h st))
           = snd (merge_client_timings (a_width a) (e_log env) name (tr_operation t) (phases_from_curl (tr_times t))
               \<lparr>m_route_mode = m, m_experiment_id = tr_experiment_id t, m_sample_index = tr_sample_index t\<rparr> (s_log st)))"
  using assms
  by (auto simp: attach_client_timings_def Let_def case_prod_beta split: option.split sum.split if_split)

lemma timings_inv:
  assumes "log_inv (a_width a) base (s_log st)"
  shows "log_inv (a_width a) base (s_log (snd (attach_client_timings a env r h st)))"
proof (cases "read_timings a r")
  case (TimingsBody t)
  have "typed_meta \<lparr>m_route_mode = m, m_experiment_id = tr_experiment_id t, m_sample_index = tr_sample_index t\<rparr>"
    if "parse_route_mode (tr_route_mode t) = Some m" "tr_experiment_id t \<noteq> [] \<longrightarrow> valid_experiment_id (tr_experiment_id t)" for m
    using typed_route_mode [OF that(1)] typed_experiment_id that(2) read_timings_index [OF TimingsBody]
    by (cases "tr_experiment_id t = []") (auto simp: typed_meta_def typed_val.simps(2))
  then show ?thesis
    using timings_log [OF TimingsBody, of env h st] merge_inv [OF assms typed_phases_from_curl] assms by metis
qed (use assms in \<open>simp_all add: attach_client_timings_def\<close>)

lemma generate_inv:
  assumes "log_inv (a_width a) base (s_log st)" and "typed_source a r" and "\<not> lg_fails (e_log env) WriteLog"
  shows "log_inv (a_width a) base (s_log (snd (generate_blob a env r h st)))"
proof (cases "parse_int64 (query_get r ''size'')")
  case (Some sz)
  obtain res s' where g: "generate (e_blob env) (a_digest a) (s_store st) (query_get r ''name'') sz = (res, s')" by fastforce
  show ?thesis
  proof (cases res)
    case (Inr i)
    with g assms Some generate_run_typed [OF g [unfolded Inr] typed_parsed [OF Some]] show ?thesis
      by (simp add: generate_blob_def append_inv run_of_request_typed)
  qed (use Some g assms(1) in \<open>simp add: generate_blob_def\<close>)
qed (use assms(1) in \<open>simp add: generate_blob_def\<close>)

lemma upload_inv:
  assumes "log_inv (a_width a) base (s_log st)" and "typed_source a r" and "\<not> lg_fails (e_log env) WriteLog"
    and "st_max (s_store st) \<le> max_int64"
  shows "log_inv (a_width a) base (s_log (snd (upload_blob a env r name h st)))"
proof -
  obtain res s' where p: "put (e_blob env) (a_digest a) (s_store st) name \<lparr>rd_bytes = q_body r, rd_fails = q_body_fails r\<rparr>
      (if 0 < q_length r then q_length r else 0) = (res, s')" by fastforce
  show ?thesis
  proof (cases res)
    case (Inr i)
    with p assms(1-3) put_run_typed [OF p [unfolded Inr] assms(4)] show ?thesis
      by (simp add: upload_blob_def Let_def append_inv run_of_request_typed)
  qed (use p assms(1) in \<open>simp add: upload_blob_def Let_def\<close>)
qed

lemma download_inv:
  assumes "log_inv (a_width a) base (s_log st)" and "typed_source a r" and "\<not> lg_fails (e_log env) WriteLog"
    and "sizes_ok (a_digest a) (s_store st)"
  shows "log_inv (a_width a) base (s_log (snd (download_blob a env r name h st)))"
proof (cases "open_blob (e_blob env) (s_store st) name")
  case (Inr hi)
  obtain hd i where hi: "hi = (hd, i)" by fastforce
  show ?thesis
  proof (cases hd)
    case (FileHandle data)
    with Inr hi have o: "open_blob (e_blob env) (s_store st) name = Inr (FileHandle data, i)" by simp
    with assms(1-3) download_run_typed [OF o assms(4)] show ?thesis
      by (simp add: download_blob_def Let_def append_inv run_of_request_typed)
  qed (use Inr hi assms(1) in \<open>simp add: download_blob_def Let_def\<close>)
qed (use assms(1) in \<open>simp add: download_blob_def\<close>)

lemma probe_inv:
  assumes "log_inv (a_width a) base (s_log st)" and "typed_source a r" and "\<not> lg_fails (e_log env) WriteLog"
  shows "log_inv (a_width a) base (s_log (snd (bench_probe a env r h st)))"
  using assms probe_run_typed
  by (auto simp: bench_probe_def Let_def not_le intro!: append_inv run_of_request_typed split: option.split)

lemma dispatch_inv:
  assumes "server_inv a base st" and "server_event_ok a (env, r)"
  shows "log_inv (a_width a) base (s_log (snd (dispatch_route a env rt vs r h st)))"
proof -
  have inv: "log_inv (a_width a) base (s_log st)" "sizes_ok (a_digest a) (s_store st)" "st_max (s_store st) \<le> max_int64"
    and ok: "typed_source a r" "\<not> lg_fails (e_log env) WriteLog"
    using assms by (auto simp: server_inv_def sizes_ok_def)
  have "s_log (snd (delete_blob_handler env n h st)) = s_log st" for n
    by (simp add: delete_blob_handler_def Let_def case_prod_beta split: option.split)
  then show ?thesis
    using inv ok timings_inv generate_inv upload_inv download_inv probe_inv by (cases rt) simp_all
qed

lemma serve_inv:
  assumes "server_inv a base st" and "server_event_ok a (env, r)"
  shows "server_inv a base (snd (serve a env r st))"
proof -
  have "log_inv (a_width a) base (s_log st)" using assms(1) by (simp add: server_inv_def)
  moreover have "log_inv (a_width a) base (s_log (snd (mux a env r h st)))" for h
    using dispatch_inv [OF assms] calculation by (simp add: mux_def split: dispatch.split)
  ultimately have "log_inv (a_width a) base (s_log (snd (serve a env r st)))"
    by (simp add: serve_def wrap_def case_prod_beta split: option.split)
  moreover have "sizes_ok (a_digest a) (s_store (snd (serve a env r st)))"
    using serve_store [of a env r st] assms store_sizes.step_inv request_op_env [of env r]
    by (auto simp: server_inv_def)
  ultimately show ?thesis by (simp add: server_inv_def)
qed

interpretation server_run: invariant_system "serve_next a" "server_inv a base" "server_event_ok a" for a base
proof
  fix st and e :: "srv_env \<times> request"
  assume "server_inv a base st" and "server_event_ok a e"
  then show "server_inv a base (serve_next a e st)" by (cases e) (simp add: serve_inv del: server_event_ok.simps)
qed

text \<open>The size limit under requests.\<close>

lemma served_within_limit:
  assumes "within_limit (s_store st)" and "\<forall>(env, r) \<in> set tr. \<not> io_fails (e_blob env) RemoveTemp"
  shows "within_limit (s_store (serve_all a tr st))" and "st_max (s_store (serve_all a tr st)) = st_max (s_store st)"
proof -
  have "\<forall>x \<in> set tr. \<forall>op. trace_op x = Some op \<longrightarrow> \<not> io_fails (op_env op) RemoveTemp"
    using assms(2) request_op_env by fastforce
  then obtain ops where ops: "s_store (serve_all a tr st) = fold (store_step (a_digest a)) ops (s_store st)"
    "list_all (\<lambda>op. \<not> io_fails (op_env op) RemoveTemp) ops" by (rule trace_store_all)
  with assms(1) show "within_limit (s_store (serve_all a tr st))" by (metis store_limit.run_inv)
  show "st_max (s_store (serve_all a tr st)) = st_max (s_store st)"
    unfolding ops(1) by (rule store_steps_max)
qed

text \<open>The sample requests arrive over plain HTTP.\<close>

lemma plain_source:
  assumes "q_remote r = ''[fd00::7]:4433''" and "q_tls r = None"
    and "leaf_from (te_parse_cert (a_tls a)) (Some (ma_certificate (a_material a))) = None"
  shows "typed_source a r"
proof -
  have "client_addr ''[fd00::7]:4433'' = ''fd00::7''" by code_simp
  moreover have "typed_val (VStr ''fd00::7'')" by (rule typed_ascii) simp_all
  ultimately show ?thesis using assms by (simp add: typed_source_def from_request_def fill_cert_fields_def)
qed

lemma sample_source:
  assumes "q_remote r = ''[fd00::7]:4433''" and "q_tls r = None"
  shows "typed_source sample_app r"
  using assms by (intro plain_source) (simp_all add: leaf_from_def sample_app_def)

end
