(* ===== verification/Lifecycle.thy ===== *)
theory Lifecycle
  imports Server
begin

text \<open>
  From start to shutdown: \<open>run\<close> of \<open>cmd/server/main.go\<close> and \<open>New\<close>, \<open>ListenAndServe\<close> and
  \<open>newHTTPServer\<close> of \<open>internal/server/server.go\<close>.

  \<open>startup\<close> composes the configuration, the store, the log and the certificates in the order of
  the code.  The three goroutines of \<open>ListenAndServe\<close> are a state machine, \<open>group_next\<close>: its events
  are what the operating system, the clients and the scheduler do, and an event that the program
  cannot take in a state has no next state.
\<close>

section \<open>Starting (main.go)\<close>

text \<open>What the process finds: environment, random device, directories, files and host name.\<close>

record outside =
  o_environ :: environ
  o_urandom :: "reader option"
  o_blob_env :: io_env
  o_blobs :: dir
  o_log_env :: log_env
  o_runs :: logger
  o_crypto :: crypto
  o_file_env :: file_env
  o_files :: files

text \<open>The code outside the repository that the handlers use.\<close>

record libs =
  l_tls :: tls_env
  l_digest :: "string \<Rightarrow> string"
  l_width :: "json \<Rightarrow> nat"
  l_scan :: "string \<Rightarrow> json_scan"
  l_index :: "string option"
  l_static :: "request \<Rightarrow> string \<Rightarrow> int \<times> (string \<times> string option) list \<times> string"

datatype start_error =
    ConfigError config_error
  | UrandomError
  | StoreError blob_error
  | LogError log_error
  | TlsError cert_error

text \<open>\<open>New\<close>: the host name falls back to a fixed one; the application is ready at once.\<close>

definition new_app :: "libs \<Rightarrow> config \<Rightarrow> store \<Rightarrow> logger \<Rightarrow> material \<Rightarrow> string option \<Rightarrow> app \<times> state" where
  "new_app l cfg store lg m host =
     (\<lparr>a_cfg = cfg, a_material = m, a_hostname = (case host of None \<Rightarrow> ''tlsbench'' | Some h \<Rightarrow> h), a_ready = True,
       a_tls = l_tls l, a_digest = l_digest l, a_width = l_width l, a_scan = l_scan l, a_index = l_index l,
       a_static = l_static l\<rparr>,
      \<lparr>s_store = store, s_log = lg, s_tracker = new_tracker\<rparr>)"

definition startup :: "libs \<Rightarrow> outside \<Rightarrow> (start_error + app \<times> state) \<times> files" where
  "startup l out =
     (let fs = o_files out
      in case from_env (te_secure (l_tls l)) (te_insecure (l_tls l)) (o_environ out) of
           Inl e \<Rightarrow> (Inl (ConfigError e), fs)
         | Inr cfg \<Rightarrow>
        (case o_urandom out of
           None \<Rightarrow> (Inl UrandomError, fs)
         | Some random \<Rightarrow>
        (case new_store (o_blob_env out) (o_blobs out) (max_blob_bytes cfg) (Some random) of
           Inl e \<Rightarrow> (Inl (StoreError e), fs)
         | Inr store \<Rightarrow>
        (case new_logger (o_log_env out) (o_runs out) of
           Inl e \<Rightarrow> (Inl (LogError e), fs)
         | Inr lg \<Rightarrow>
        (case load_or_generate (o_crypto out) (o_file_env out) cfg fs of
           (Inl e, fs') \<Rightarrow> (Inl (TlsError e), fs')
         | (Inr m, fs') \<Rightarrow> (Inr (new_app l cfg store lg m (fe_hostname (o_file_env out))), fs'))))))"

section \<open>Servers (server.go)\<close>

datatype srv = Http | Https

definition read_header_timeout_secs :: int where "read_header_timeout_secs = 10"
definition read_timeout_secs :: int where "read_timeout_secs = 300"
definition write_timeout_secs :: int where "write_timeout_secs = 300"
definition idle_timeout_secs :: int where "idle_timeout_secs = 120"
definition max_header_bytes :: int where "max_header_bytes = 1048576"

text \<open>Times in nanoseconds, as \<open>time.Duration\<close>.\<close>

record http_server =
  hs_addr :: string
  hs_read_header_timeout :: int
  hs_read_timeout :: int
  hs_write_timeout :: int
  hs_idle_timeout :: int
  hs_max_header_bytes :: int

definition new_http_server :: "string \<Rightarrow> http_server" where
  "new_http_server addr =
     \<lparr>hs_addr = addr, hs_read_header_timeout = read_header_timeout_secs * 10 ^ 9,
      hs_read_timeout = read_timeout_secs * 10 ^ 9, hs_write_timeout = write_timeout_secs * 10 ^ 9,
      hs_idle_timeout = idle_timeout_secs * 10 ^ 9, hs_max_header_bytes = max_header_bytes\<rparr>"

text \<open>An error is a nonempty list, the parts of \<open>errors.Join\<close>; the empty list is \<open>nil\<close>.\<close>

type_synonym errs = "unit gerror list"

datatype server_proc = Starting | Serving | Returned
datatype stop_proc = WaitsForCancel | Stopping srv errs | Stopped

text \<open>
  The error group: its context, the servers' \<open>inShutdown\<close> flags, the three goroutines and the
  first error.
\<close>

record group =
  gr_cancelled :: bool
  gr_down :: "srv \<Rightarrow> bool"
  gr_proc :: "srv \<Rightarrow> server_proc"
  gr_stop :: stop_proc
  gr_first :: errs

definition new_group :: group where
  "new_group = \<lparr>gr_cancelled = False, gr_down = (\<lambda>_. False), gr_proc = (\<lambda>_. Starting),
     gr_stop = WaitsForCancel, gr_first = []\<rparr>"

text \<open>
  \<open>ListenAndServe\<close> up to the goroutines: a client CA file that does not load, or an HTTPS address
  that cannot be bound, ends it before anything is served.
\<close>

definition listen :: "app \<Rightarrow> crypto \<Rightarrow> file_env \<Rightarrow> files \<Rightarrow> bool \<Rightarrow>
    cert_error + (srv \<Rightarrow> http_server) \<times> listener_tls \<times> group" where
  "listen a cr env fs bind_fails =
     (let servers = (\<lambda>s. new_http_server (case s of Http \<Rightarrow> http_addr (a_cfg a) | Https \<Rightarrow> https_addr (a_cfg a)))
      in case load_client_cas cr env fs (tls_client_ca_file (a_cfg a)) of
           Inl e \<Rightarrow> Inl (Wrapped ''load client CAs'' e)
         | Inr client_cas \<Rightarrow>
             if bind_fails then Inl (Wrapped ''https listen'' (SysErr ''listen''))
             else Inr (servers, server_tls_config (a_material a) client_cas (a_cfg a), new_group))"

section \<open>The goroutines\<close>

text \<open>The result of \<open>Shutdown\<close>: \<open>nil\<close>, \<open>http.ErrServerClosed\<close>, or another error.\<close>

datatype shutdown_result = ShutOk | ShutClosed | ShutFails "unit gerror"

fun srv_name :: "srv \<Rightarrow> string" where
  "srv_name Http = ''http''"
| "srv_name Https = ''https''"

fun shutdown_err :: "srv \<Rightarrow> shutdown_result \<Rightarrow> errs" where
  "shutdown_err s (ShutFails e) = [Wrapped (srv_name s @ '' shutdown'') e]"
| "shutdown_err s _ = []"

text \<open>A goroutine of the group returns: the first error is kept and cancels the context.\<close>

definition finish :: "errs \<Rightarrow> group \<Rightarrow> group" where
  "finish es g = (if es = [] then g
                  else g\<lparr>gr_cancelled := True, gr_first := (if gr_first g = [] then es else gr_first g)\<rparr>)"

text \<open>
  \<open>Signal\<close>: SIGINT or SIGTERM; \<open>Begin\<close>: a server starts to accept; \<open>Fail\<close>: it cannot bind its address
  or stops accepting with an error; \<open>Close\<close>: it returns \<open>http.ErrServerClosed\<close> after its shutdown
  began; \<open>StopHttp\<close>: the third goroutine sees the cancelled context; \<open>ShutDone\<close>: the running call of
  \<open>Shutdown\<close> returns.
\<close>

datatype event = Signal | Begin srv | Fail srv "unit gerror" | Close srv | StopHttp | ShutDone shutdown_result

fun group_next :: "event \<Rightarrow> group \<Rightarrow> group option" where
  "group_next Signal g = Some (g\<lparr>gr_cancelled := True\<rparr>)"
| "group_next (Begin s) g =
     (if gr_proc g s = Starting \<and> \<not> gr_down g s then Some (g\<lparr>gr_proc := (gr_proc g)(s := Serving)\<rparr>) else None)"
| "group_next (Fail s e) g =
     (if gr_proc g s = Starting \<or> gr_proc g s = Serving \<and> \<not> gr_down g s
      then Some (finish [Wrapped (srv_name s) e] (g\<lparr>gr_proc := (gr_proc g)(s := Returned)\<rparr>)) else None)"
| "group_next (Close s) g =
     (if gr_proc g s \<noteq> Returned \<and> gr_down g s then Some (g\<lparr>gr_proc := (gr_proc g)(s := Returned)\<rparr>) else None)"
| "group_next StopHttp g =
     (if gr_stop g = WaitsForCancel \<and> gr_cancelled g
      then Some (g\<lparr>gr_stop := Stopping Http [], gr_down := (gr_down g)(Http := True)\<rparr>) else None)"
| "group_next (ShutDone r) g =
     (case gr_stop g of
        Stopping Http es \<Rightarrow>
          Some (g\<lparr>gr_stop := Stopping Https (es @ shutdown_err Http r), gr_down := (gr_down g)(Https := True)\<rparr>)
      | Stopping Https es \<Rightarrow> Some (finish (es @ shutdown_err Https r) (g\<lparr>gr_stop := Stopped\<rparr>))
      | _ \<Rightarrow> None)"

fun group_run :: "event list \<Rightarrow> group \<Rightarrow> group option" where
  "group_run [] g = Some g"
| "group_run (e # es) g = (case group_next e g of None \<Rightarrow> None | Some g' \<Rightarrow> group_run es g')"

text \<open>\<open>group.Wait\<close> returns when all three goroutines have returned, with the first error.\<close>

definition group_wait :: "group \<Rightarrow> errs option" where
  "group_wait g = (if gr_proc g Http = Returned \<and> gr_proc g Https = Returned \<and> gr_stop g = Stopped
                   then Some (gr_first g) else None)"

section \<open>Lemmas\<close>

lemma finish_simps [simp]:
  "gr_proc (finish es g) = gr_proc g" "gr_down (finish es g) = gr_down g" "gr_stop (finish es g) = gr_stop g"
  "gr_cancelled (finish es g) \<longleftrightarrow> gr_cancelled g \<or> es \<noteq> []"
  "gr_first (finish es g) = (if gr_first g = [] then es else gr_first g)"
  by (auto simp: finish_def)

lemma group_run_append:
  "group_run (es @ fs) g = (case group_run es g of None \<Rightarrow> None | Some g' \<Rightarrow> group_run fs g')"
  by (induction es arbitrary: g) (auto split: option.splits)

text \<open>What the flags say about the third goroutine, and the errors it has collected.\<close>

definition group_ok :: "group \<Rightarrow> bool" where
  "group_ok g \<longleftrightarrow>
     (gr_down g Http \<longleftrightarrow> gr_stop g \<noteq> WaitsForCancel)
     \<and> (gr_down g Https \<longleftrightarrow> gr_stop g \<notin> {WaitsForCancel} \<union> range (Stopping Http))
     \<and> (gr_stop g \<noteq> WaitsForCancel \<or> gr_first g \<noteq> [] \<longrightarrow> gr_cancelled g)
     \<and> (\<forall>s. gr_proc g s = Returned \<longrightarrow> gr_cancelled g)"

lemma group_ok_start [simp]: "group_ok new_group"
  by (simp add: group_ok_def new_group_def)

lemma group_ok_step:
  assumes "group_ok g" and "group_next e g = Some g'"
  shows "group_ok g'"
proof (cases e)
  case (Close s)
  with assms show ?thesis by (cases s) (auto simp: group_ok_def split: if_splits)
next
  case (Fail s err)
  with assms show ?thesis by (auto simp: group_ok_def split: if_splits)
qed (use assms in \<open>auto simp: group_ok_def split: if_splits stop_proc.splits srv.splits\<close>)

lemma group_ok_run: "group_ok g \<Longrightarrow> group_run es g = Some g' \<Longrightarrow> group_ok g'"
  by (induction es arbitrary: g) (auto split: option.splits intro: group_ok_step)

text \<open>How many steps the goroutines can still take.\<close>

fun proc_left :: "server_proc \<Rightarrow> nat" where
  "proc_left Starting = 2"
| "proc_left Serving = 1"
| "proc_left Returned = 0"

fun stop_left :: "stop_proc \<Rightarrow> nat" where
  "stop_left WaitsForCancel = 3"
| "stop_left (Stopping Http _) = 2"
| "stop_left (Stopping Https _) = 1"
| "stop_left Stopped = 0"

definition group_left :: "group \<Rightarrow> nat" where
  "group_left g = proc_left (gr_proc g Http) + proc_left (gr_proc g Https) + stop_left (gr_stop g)"

lemma group_left_step: "group_next e g = Some g' \<Longrightarrow> e \<noteq> Signal \<Longrightarrow> group_left g' < group_left g"
proof (cases e)
  case (Begin s)
  then show "group_next e g = Some g' \<Longrightarrow> ?thesis" by (cases s) (auto simp: group_left_def split: if_splits)
next
  case (Fail s err)
  then show "group_next e g = Some g' \<Longrightarrow> ?thesis"
    by (cases s; cases "gr_proc g s") (auto simp: group_left_def split: if_splits)
next
  case (Close s)
  then show "group_next e g = Some g' \<Longrightarrow> ?thesis"
    by (cases s; cases "gr_proc g s") (auto simp: group_left_def split: if_splits)
qed (auto simp: group_left_def split: if_splits stop_proc.splits srv.splits)

lemma group_left_signal: "group_next Signal g = Some g' \<Longrightarrow> group_left g' = group_left g"
  by (auto simp: group_left_def)

lemma group_run_left:
  "group_run es g = Some g' \<Longrightarrow> length (filter (\<lambda>e. e \<noteq> Signal) es) + group_left g' \<le> group_left g"
proof (induction es arbitrary: g)
  case (Cons e es)
  then obtain h where h: "group_next e g = Some h" "group_run es h = Some g'" by (auto split: option.splits)
  from Cons.IH [OF h(2)] group_left_step [OF h(1)] group_left_signal [of g h] h(1) show ?case
    by (cases "e = Signal") auto
qed simp

text \<open>Once the context is cancelled, only a finished group is stuck.\<close>

lemma group_progress:
  assumes "group_ok g" and "gr_cancelled g" and "group_wait g = None"
  shows "\<exists>e. e \<noteq> Signal \<and> (\<forall>s err. e \<noteq> Fail s err) \<and> group_next e g \<noteq> None"
proof (cases "gr_stop g")
  case WaitsForCancel
  with assms(2) show ?thesis by (intro exI [of _ StopHttp]) simp
next
  case (Stopping s es)
  then show ?thesis by (intro exI [of _ "ShutDone ShutOk"]) (cases s, simp_all)
next
  case Stopped
  with assms(1) have "gr_down g s" for s by (cases s) (auto simp: group_ok_def)
  moreover obtain s where "gr_proc g s \<noteq> Returned" using assms(3) Stopped by (auto simp: group_wait_def split: if_splits)
  ultimately show ?thesis by (intro exI [of _ "Close s"]) simp
qed

text \<open>What the events of a run say about its errors.\<close>

definition failing :: "event \<Rightarrow> bool" where
  "failing e \<longleftrightarrow> (\<exists>s err. e = Fail s err) \<or> (\<exists>err. e = ShutDone (ShutFails err))"

lemma failing_simps [simp]:
  "\<not> failing Signal" "\<not> failing (Begin s)" "failing (Fail s err)" "\<not> failing (Close s)" "\<not> failing StopHttp"
  by (simp_all add: failing_def)

lemma shutdown_err_nil [simp]: "shutdown_err s r = [] \<longleftrightarrow> \<not> failing (ShutDone r)"
  by (cases r) (simp_all add: failing_def)

fun pending :: "stop_proc \<Rightarrow> errs" where
  "pending (Stopping _ es) = es"
| "pending _ = []"

lemma errors_run:
  "group_run es new_group = Some g \<Longrightarrow>
     (gr_first g \<noteq> [] \<or> pending (gr_stop g) \<noteq> [] \<longleftrightarrow> list_ex failing es)
     \<and> (gr_cancelled g \<longrightarrow> Signal \<in> set es \<or> (\<exists>s err. Fail s err \<in> set es))
     \<and> (gr_stop g \<noteq> WaitsForCancel \<or> gr_first g \<noteq> [] \<longrightarrow> gr_cancelled g)"
proof (induction es arbitrary: g rule: rev_induct)
  case (snoc e es)
  then obtain h where h: "group_run es new_group = Some h" and e: "group_next e h = Some g"
    by (auto simp: group_run_append split: option.splits)
  note IH = snoc.IH [OF h]
  show ?case
  proof (cases e)
    case (Fail s err)
    with e have g: "gr_first g \<noteq> []" "gr_cancelled g" by (auto split: if_splits)
    with Fail show ?thesis by auto
  next
    case (ShutDone r)
    with e IH show ?thesis
      by (cases "gr_first h = []") (auto split: stop_proc.splits srv.splits)
  qed (use e IH in \<open>auto split: if_splits\<close>)
qed (simp add: new_group_def)

lemma cancelled_step: "gr_cancelled g \<Longrightarrow> group_next e g = Some g' \<Longrightarrow> gr_cancelled g'"
  by (cases e) (auto split: if_splits stop_proc.splits srv.splits)

lemma cancelled_run: "gr_cancelled g \<Longrightarrow> group_run es g = Some g' \<Longrightarrow> gr_cancelled g'"
  by (induction es arbitrary: g) (auto split: option.splits intro: cancelled_step)

section \<open>Properties\<close>

text \<open>C8: Once a signal has come or a server has failed, the process comes to an end: whatever the order in which
  the goroutines run, at most seven more steps can be taken, and until \<open>Wait\<close> returns there is always a step
  that the program can take without another failure.\<close>

theorem shutdown_terminates:
  assumes "group_run es new_group = Some g" and "gr_cancelled g"
    and "group_run fs g = Some h" and "Signal \<notin> set fs"
  shows "length fs \<le> 7 \<and> (group_wait h \<noteq> None \<or> (\<exists>e. e \<noteq> Signal \<and> (\<forall>s err. e \<noteq> Fail s err) \<and> group_next e h \<noteq> None))"
proof
  have "filter (\<lambda>e. e \<noteq> Signal) fs = fs" using assms(4) by (simp add: filter_id_conv) blast
  moreover have "group_left g \<le> 7"
    using group_run_left [OF assms(1)] by (simp add: group_left_def new_group_def)
  ultimately show "length fs \<le> 7" using group_run_left [OF assms(3)] by simp
  have "group_ok h" using group_ok_run [OF group_ok_run [OF group_ok_start assms(1)] assms(3)] .
  then show "group_wait h \<noteq> None \<or> (\<exists>e. e \<noteq> Signal \<and> (\<forall>s err. e \<noteq> Fail s err) \<and> group_next e h \<noteq> None)"
    using group_progress [OF _ cancelled_run [OF assms(2,3)]] by blast
qed

lemma shutdown_terminates_witness:
  "\<exists>h. group_run [StopHttp, Close Http, ShutDone ShutOk, ShutDone ShutClosed, Close Https] (new_group\<lparr>gr_cancelled := True\<rparr>) = Some h
     \<and> length [StopHttp, Close Http, ShutDone ShutOk, ShutDone ShutClosed, Close Https] \<le> 7"
  using shutdown_terminates [of "[Signal]" "new_group\<lparr>gr_cancelled := True\<rparr>"
      "[StopHttp, Close Http, ShutDone ShutOk, ShutDone ShutClosed, Close Https]"]
  by (simp add: new_group_def)

text \<open>C26: What \<open>ListenAndServe\<close> returns: it never returns before both servers have been told to shut down, which
  only a signal or the failure of a server causes, and it returns no error exactly when no server failed and
  both shutdowns ended in time.\<close>

theorem wait_result:
  assumes "group_run es new_group = Some g" and "group_wait g = Some result"
  shows "gr_down g Http \<and> gr_down g Https
    \<and> (Signal \<in> set es \<or> (\<exists>s err. Fail s err \<in> set es))
    \<and> (result = [] \<longleftrightarrow> (\<forall>e \<in> set es. (\<forall>s err. e \<noteq> Fail s err) \<and> (\<forall>err. e \<noteq> ShutDone (ShutFails err))))"
proof -
  have g: "gr_stop g = Stopped" "gr_first g = result" using assms(2) by (auto simp: group_wait_def split: if_splits)
  moreover have "group_ok g" using group_ok_run [OF group_ok_start assms(1)] .
  moreover have "list_ex failing es \<longleftrightarrow> (\<exists>e \<in> set es. (\<exists>s err. e = Fail s err) \<or> (\<exists>err. e = ShutDone (ShutFails err)))"
    by (simp add: list_ex_iff failing_def)
  ultimately show ?thesis using errors_run [OF assms(1)] by (auto simp: group_ok_def)
qed

lemma wait_result_witness:
  "\<exists>g. group_run [Begin Http, Fail Http (SysErr ''in use''), StopHttp, ShutDone ShutOk, Close Https, ShutDone ShutOk] new_group = Some g
     \<and> group_wait g = Some [Wrapped ''http'' (SysErr ''in use'')] \<and> gr_down g Https"
  using wait_result [of "[Begin Http, Fail Http (SysErr ''in use''), StopHttp, ShutDone ShutOk, Close Https, ShutDone ShutOk]"]
  by (auto simp: new_group_def group_wait_def finish_def)

text \<open>What the application and its state are after a start.\<close>

lemma startup_facts:
  assumes "startup l out = (Inr (a, st), fs')"
  shows "a_width a = l_width l" and "a_digest a = l_digest l" and "a_tls a = l_tls l"
    and "st_max (s_store st) = max_blob_bytes (a_cfg a)" and "st_max (s_store st) \<le> max_int64"
    and "st_dir (s_store st) = o_blobs out" and "s_log st = o_runs out"
    and "fst (load_or_generate (o_crypto out) (o_file_env out) (a_cfg a) (o_files out)) = Inr (a_material a)"
    and "from_env (te_secure (l_tls l)) (te_insecure (l_tls l)) (o_environ out) = Inr (a_cfg a)"
proof -
  show env: "from_env (te_secure (l_tls l)) (te_insecure (l_tls l)) (o_environ out) = Inr (a_cfg a)"
    and "a_width a = l_width l" "a_digest a = l_digest l" "a_tls a = l_tls l"
    and max: "st_max (s_store st) = max_blob_bytes (a_cfg a)"
    and "st_dir (s_store st) = o_blobs out" "s_log st = o_runs out"
    and "fst (load_or_generate (o_crypto out) (o_file_env out) (a_cfg a) (o_files out)) = Inr (a_material a)"
    using assms
    by (auto simp: startup_def new_app_def new_store_def new_logger_def Let_def
        split: sum.splits option.splits prod.splits if_splits)
  show "st_max (s_store st) \<le> max_int64" using from_env_ok [OF env] max by (simp add: config_ok_def)
qed

definition sample_libs :: libs where
  "sample_libs = \<lparr>l_tls = \<lparr>te_secure = [], te_insecure = [], te_parse_cert = (\<lambda>_. None)\<rparr>, l_digest = checksum_stub,
     l_width = (\<lambda>_. 200), l_scan = (\<lambda>_. Malformed), l_index = None, l_static = (\<lambda>_ _. (404, [], []))\<rparr>"

definition fresh_pod :: outside where
  "fresh_pod = \<lparr>o_environ = (\<lambda>_. '' ''), o_urandom = Some \<lparr>rd_bytes = [], rd_fails = False\<rparr>, o_blob_env = calm, o_blobs = [],
     o_log_env = log_calm, o_runs = no_log, o_crypto = stub_crypto, o_file_env = file_calm, o_files = []\<rparr>"

lemma fresh_pod_starts: "\<exists>a st fs. startup sample_libs fresh_pod = (Inr (a, st), fs) \<and> a_cfg a = default_config"
proof -
  have env: "from_env [] [] (\<lambda>_. '' '') = Inr default_config" by (rule from_env_defaults) (rule trim_blank)
  have "0 < max_blob_bytes default_config" by (simp add: default_config_def default_max_blob_bytes_def)
  with env first_start_succeeds show ?thesis
    by (auto simp: startup_def sample_libs_def fresh_pod_def new_store_def new_logger_def new_app_def calm_def)
qed

text \<open>C25: What a failed first start means for the next one.  Where neither certificate nor key was, a start that
  fails, at whatever check or write, leaves one of three situations.  Either neither file exists, and the
  next start generates anew.  Or only the certificate exists, because its write was cut or the key could not be
  created: then every later start is refused until someone removes the certificate.  Or both exist, because the key
  was cut or does not fit: then the next start loads them and succeeds exactly when they fit each other.\<close>

theorem failed_start_recovery:
  assumes "startup l out = (Inl e, fs')"
    and "from_env (te_secure (l_tls l)) (te_insecure (l_tls l)) (o_environ out) = Inr cfg"
    and "distinct [tls_ca_file cfg, tls_cert_file cfg, tls_key_file cfg]"
    and "map_of (o_files out) (tls_cert_file cfg) = None" and "map_of (o_files out) (tls_key_file cfg) = None"
    and "reads_succeed env'"
  shows "let cert = map_of fs' (tls_cert_file cfg); key = map_of fs' (tls_key_file cfg);
             env = o_file_env out; again = startup l (out\<lparr>o_files := fs', o_file_env := env'\<rparr>)
    in cert = None \<and> key = None
         \<and> load_or_generate (o_crypto out) env' cfg fs' = generate_and_write (o_crypto out) env' cfg fs'
     \<or> cert \<noteq> None \<and> key = None
         \<and> (fe_write_cut env (tls_cert_file cfg) \<noteq> None \<or> fe_mkdir_fails env (tls_key_file cfg) \<or> fe_open_fails env (tls_key_file cfg))
         \<and> again = (Inl (TlsError (Message
             (''both '' @ tls_cert_file cfg @ '' and '' @ tls_key_file cfg @ '' must exist, or neither''))), fs')
     \<or> cert \<noteq> None \<and> key \<noteq> None
         \<and> (fe_write_cut env (tls_key_file cfg) \<noteq> None \<or> cr_key_pair (o_crypto out) (the cert) (the key) = None)
         \<and> snd again = fs'
         \<and> ((\<exists>x. fst again = Inr x) \<longleftrightarrow> cr_key_pair (o_crypto out) (the cert) (the key) \<noteq> None)"
proof -
  note exists = file_exists_quiet [OF assms(6)]
  have fresh: ?thesis if "map_of fs' (tls_cert_file cfg) = None" "map_of fs' (tls_key_file cfg) = None"
    using that by (simp add: load_or_generate_def exists)
  show ?thesis
  proof (cases "\<exists>c. e = TlsError c \<and> generate_and_write (o_crypto out) (o_file_env out) cfg (o_files out) = (Inl c, fs')")
    case False
    then have "fs' = o_files out"
      using assms(1,2,4,5)
      by (auto simp: startup_def load_or_generate_def file_exists_def Let_def split: sum.splits option.splits prod.splits if_splits)
    with assms(4,5) have "map_of fs' (tls_cert_file cfg) = None" "map_of fs' (tls_key_file cfg) = None" by simp_all
    then show ?thesis by (rule fresh)
  next
    case True
    then obtain c where c: "e = TlsError c" "generate_and_write (o_crypto out) (o_file_env out) cfg (o_files out) = (Inl c, fs')" by blast
    have again: "startup l (out\<lparr>o_files := fs', o_file_env := env'\<rparr>) =
        (case load_or_generate (o_crypto out) env' cfg fs' of
           (Inl x, fs2) \<Rightarrow> (Inl (TlsError x), fs2)
         | (Inr m, fs2) \<Rightarrow> (Inr (new_app l cfg
             (projr (new_store (o_blob_env out) (o_blobs out) (max_blob_bytes cfg) (o_urandom out)))
             (projr (new_logger (o_log_env out) (o_runs out))) m (fe_hostname env')), fs2))"
      using assms(1,2) c(1) by (auto simp: startup_def Let_def split: sum.splits option.splits prod.splits)
    from c(2) assms(3-5) show ?thesis
    proof (cases rule: generate_and_write_failed)
      case neither
      then show ?thesis by (rule fresh)
    next
      case no_key
      then show ?thesis by (auto simp: again load_or_generate_def exists)
    next
      case (both cert key)
      have "(\<exists>m. load_provided (o_crypto out) env' cfg fs' = Inr m) \<longleftrightarrow> cr_key_pair (o_crypto out) cert key \<noteq> None"
        using load_provided_pair [OF assms(6) both(1,2)] .
      with both show ?thesis
        by (cases "load_provided (o_crypto out) env' cfg fs'") (auto simp: again load_or_generate_def exists)
    qed
  qed
qed

text \<open>A volume on which the key cannot be created at the first start.\<close>

definition keyless_pod :: outside where
  "keyless_pod = fresh_pod\<lparr>o_file_env := file_calm\<lparr>fe_open_fails := (\<lambda>p. p = tls_key_file default_config)\<rparr>\<rparr>"

lemma keyless_pod_fails:
  "\<exists>e fs. startup sample_libs keyless_pod = (Inl e, fs)
     \<and> map_of fs (tls_cert_file default_config) \<noteq> None \<and> map_of fs (tls_key_file default_config) = None"
proof -
  have env: "from_env [] [] (\<lambda>_. '' '') = Inr default_config" by (rule from_env_defaults) (rule trim_blank)
  have "\<exists>e fs. load_or_generate stub_crypto (o_file_env keyless_pod) default_config [] = (Inl e, fs)
      \<and> map_of fs (tls_cert_file default_config) \<noteq> None \<and> map_of fs (tls_key_file default_config) = None"
    using default_paths_distinct
    by (auto simp: keyless_pod_def load_or_generate_def file_exists_def generate_and_write_def generate_pems_def write_file_def
        stub_crypto_def file_calm_def split_names_def server_template_def default_config_def update_conv')
  moreover have "0 < max_blob_bytes default_config" by (simp add: default_config_def default_max_blob_bytes_def)
  ultimately show ?thesis
    using env by (auto simp: startup_def sample_libs_def keyless_pod_def fresh_pod_def new_store_def new_logger_def calm_def)
qed

lemma failed_start_recovery_witness:
  "\<exists>e fs. startup sample_libs keyless_pod = (Inl e, fs)
     \<and> isl (fst (startup sample_libs (keyless_pod\<lparr>o_files := fs, o_file_env := file_calm\<rparr>)))"
proof -
  obtain e fs where f: "startup sample_libs keyless_pod = (Inl e, fs)" "map_of fs (tls_cert_file default_config) \<noteq> None"
    "map_of fs (tls_key_file default_config) = None" using keyless_pod_fails by blast
  have "from_env (te_secure (l_tls sample_libs)) (te_insecure (l_tls sample_libs)) (o_environ keyless_pod) = Inr default_config"
    using from_env_defaults [OF trim_blank] by (simp add: sample_libs_def keyless_pod_def fresh_pod_def)
  moreover note default_paths_distinct
  moreover have "reads_succeed file_calm" by (simp add: reads_succeed_def file_calm_def)
  ultimately show ?thesis
    using failed_start_recovery [OF f(1), of default_config file_calm] f
    by (auto simp: Let_def keyless_pod_def fresh_pod_def)
qed

end
