(* ===== verification/Restarts.thy ===== *)
theory Restarts
  imports Recording Lifecycle
begin

text \<open>
  The program over several lives: a pod is started, serves requests and ends, and the next one
  starts (\<open>run\<close> of \<open>cmd/server/main.go\<close>) on the directories that it left.  The volume is what
  survives: the blob directory, the results log and the certificate files; everything else (the
  environment, the random device, which calls fail) may differ from life to life.
\<close>

record volume =
  v_blobs :: dir
  v_runs :: logger
  v_files :: files

definition mount :: "volume \<Rightarrow> outside \<Rightarrow> outside" where
  "mount v out = out\<lparr>o_blobs := v_blobs v, o_runs := v_runs v, o_files := v_files v\<rparr>"

text \<open>One life: a start and, when it succeeds, the requests it serves until the process ends.\<close>

fun life :: "libs \<Rightarrow> outside \<times> trace \<Rightarrow> volume \<Rightarrow> volume" where
  "life l (out, tr) v =
     (case startup l (mount v out) of
        (Inl e, fs) \<Rightarrow> v\<lparr>v_files := fs\<rparr>
      | (Inr (a, st), fs) \<Rightarrow>
          let st' = serve_all a tr st
          in \<lparr>v_blobs = st_dir (s_store st'), v_runs = s_log st', v_files = fs\<rparr>)"

section \<open>The invariant of the volume\<close>

text \<open>What a life relies on: the log is readable and keeps \<open>base\<close>; every blob is within the limit.\<close>

definition volume_ok :: "libs \<Rightarrow> int \<Rightarrow> go_val list list \<Rightarrow> volume \<Rightarrow> bool" where
  "volume_ok l limit base v \<longleftrightarrow>
     log_inv (l_width l) base (v_runs v) \<and> (\<forall>x. length (l_digest l x) \<le> 64)
     \<and> (\<forall>k data t. map_of (v_blobs v) k = Some (File data t) \<longrightarrow> int (length data) \<le> max_int64
          \<and> (\<not> has_suffix k ''.sha256'' \<longrightarrow> int (length data) \<le> limit))"

text \<open>
  A life that the invariant allows: the configuration has the same \<open>MAX_BLOB_BYTES\<close>, no appended line
  is cut short, and no temporary file stays.  A start may fail.
\<close>

definition life_ok :: "libs \<Rightarrow> int \<Rightarrow> outside \<times> trace \<Rightarrow> bool" where
  "life_ok l limit x \<longleftrightarrow>
     (\<forall>v a st fs. startup l (mount v (fst x)) = (Inr (a, st), fs)
        \<longrightarrow> max_blob_bytes (a_cfg a) = limit \<and> list_all (server_event_ok a) (snd x))"

lemma startup_volume:
  assumes "startup l (mount v out) = (Inr (a, st), fs)" and "volume_ok l limit base v"
    and "max_blob_bytes (a_cfg a) = limit"
  shows "server_inv a base st" and "within_limit (s_store st)" and "st_max (s_store st) = limit"
    and "a_width a = l_width l" and "a_digest a = l_digest l"
proof -
  note facts = startup_facts [OF assms(1)]
  show lib: "a_width a = l_width l" "a_digest a = l_digest l" using facts(1,2) .
  show "st_max (s_store st) = limit" using facts(4) assms(3) by simp
  have dir: "stored (s_store st) k = map_of (v_blobs v) k" for k
    using facts(6) by (simp add: stored_def mount_def)
  show "within_limit (s_store st)"
    using assms(2,3) facts(4) by (auto simp: within_limit_def volume_ok_def dir)
  show "server_inv a base st"
    using assms(2) facts(5,7) by (auto simp: server_inv_def sizes_ok_def volume_ok_def dir lib mount_def)
qed

lemma life_keeps_volume:
  assumes "volume_ok l limit base v" and "life_ok l limit x"
  shows "volume_ok l limit base (life l x v)"
proof -
  obtain out tr where x: "x = (out, tr)" by fastforce
  obtain r fs where s: "startup l (mount v out) = (r, fs)" by fastforce
  show ?thesis
  proof (cases r)
    case (Inl e)
    with x s assms(1) show ?thesis by (simp add: volume_ok_def)
  next
    case (Inr ast)
    obtain a st where ast: "ast = (a, st)" by fastforce
    note s' = s [unfolded Inr ast]
    have ok: "max_blob_bytes (a_cfg a) = limit" "list_all (server_event_ok a) tr"
      using assms(2) s' unfolding life_ok_def x by auto
    note start = startup_volume [OF s' assms(1) ok(1)]
    let ?st = "serve_all a tr st"
    have inv: "server_inv a base ?st" using start(1) ok(2) by (rule server_run.run_inv)
    have "\<forall>(env, r) \<in> set tr. \<not> io_fails (e_blob env) RemoveTemp" using ok(2) by (auto simp: list_all_iff)
    note limit = served_within_limit [OF start(2) this, of a]
    with inv limit start(3-5) show ?thesis
      using assms(1)
      by (auto simp: x s' volume_ok_def server_inv_def sizes_ok_def within_limit_def stored_def Let_def)
  qed
qed

interpretation lives: invariant_system "life l" "volume_ok l limit base" "life_ok l limit" for l limit base
  by unfold_locales (rule life_keeps_volume)

section \<open>Properties\<close>

text \<open>C24: Measurements survive restarts.  From a volume whose log ends in a complete line and whose blobs are within
  the limit, over any number of lives of the program, started with any environment of the same
  \<open>MAX_BLOB_BYTES\<close>, whose starts may fail and which serve any requests, as long as no appended line is cut
  short, no temporary file stays and every process ends between requests: the log reads back, what the server measured
  of the runs held at the beginning is still at its front, and no blob exceeds the limit.\<close>

theorem restarts_keep_measurements:
  assumes "bounded_width (l_width l)" and "\<forall>x. length (l_digest l x) \<le> 64"
    and "closed_logger (v_runs v)" and "contents (l_width l) (v_runs v) = Some runs" and "list_all typed_run runs"
    and "\<forall>k data t. map_of (v_blobs v) k = Some (File data t) \<longrightarrow> int (length data) \<le> max_int64
          \<and> (\<not> has_suffix k ''.sha256'' \<longrightarrow> int (length data) \<le> limit)"
    and "list_all (life_ok l limit) lives" and "readable env"
  shows "let v' = fold (life l) lives v
    in (\<exists>runs'. read_all_unlocked (l_width l) env (v_runs v') = Inr runs'
          \<and> length runs \<le> length runs' \<and> map measured (take (length runs) runs') = map measured runs)
       \<and> (\<forall>k data t. map_of (v_blobs v') k = Some (File data t) \<longrightarrow> \<not> has_suffix k ''.sha256''
            \<longrightarrow> int (length data) \<le> limit)"
proof -
  have "volume_ok l limit (map measured runs) v"
    using assms(1-6) by (simp add: volume_ok_def log_inv_def prefix_of_def)
  then have v: "volume_ok l limit (map measured runs) (fold (life l) lives v)"
    using assms(7) by (rule lives.run_inv)
  then have log: "log_inv (l_width l) (map measured runs) (v_runs (fold (life l) lives v))" by (simp add: volume_ok_def)
  show ?thesis
    using log_inv_read [OF log assms(8)] v by (simp add: volume_ok_def Let_def)
qed

text \<open>Two lives of a pod, each serving an upload.\<close>

lemma stub_material:
  assumes "fst (load_or_generate stub_crypto env cfg fs) = Inr m"
  shows "tc_leaf (ma_certificate m) = None"
proof -
  have [simp]: "cr_key_pair stub_crypto c k = Some \<lparr>tc_chain = [c], tc_leaf = None\<rparr>" "cr_parse_cert stub_crypto x = None" for c k x
    by (simp_all add: stub_crypto_def)
  have "tc_leaf (ma_certificate m) = None" if "fst (generate_and_write stub_crypto env cfg fs) = Inr m"
  proof -
    from that have "generate_and_write stub_crypto env cfg fs = (Inr m, snd (generate_and_write stub_crypto env cfg fs))"
      by (metis prod.collapse)
    then show ?thesis by (rule generate_and_write_ok) (auto simp: attach_leaf_def)
  qed
  then show ?thesis
    using assms
    by (auto simp: load_or_generate_def load_provided_def attach_leaf_def split: sum.splits if_splits option.splits)
qed

definition two_lives :: "(outside \<times> trace) list" where
  "two_lives = [(fresh_pod, [(sample_env, sample_put)]), (fresh_pod, [(sample_env, sample_put)])]"

lemma two_lives_ok: "list_all (life_ok sample_libs default_max_blob_bytes) two_lives"
proof -
  have "max_blob_bytes (a_cfg a) = default_max_blob_bytes \<and> list_all (server_event_ok a) [(sample_env, sample_put)]"
    if s: "startup sample_libs (mount v fresh_pod) = (Inr (a, st), fs)" for v a st fs
  proof -
    note facts = startup_facts [OF s]
    have "from_env [] [] (\<lambda>_. '' '') = Inr default_config" by (rule from_env_defaults) (rule trim_blank)
    with facts(9) have cfg: "a_cfg a = default_config" by (simp add: sample_libs_def mount_def fresh_pod_def)
    have "tc_leaf (ma_certificate (a_material a)) = None"
      using facts(8) stub_material by (simp add: mount_def fresh_pod_def)
    then have "typed_source a sample_put"
      using facts(3) by (intro plain_source) (auto simp: sample_put_def sample_request_def leaf_from_def sample_libs_def)
    then show ?thesis using cfg by (simp add: default_config_def sample_env_def calm_def log_calm_def)
  qed
  then show ?thesis by (simp add: two_lives_def life_ok_def del: server_event_ok.simps)
qed

lemma restarts_keep_measurements_witness:
  "\<exists>runs'. read_all_unlocked (\<lambda>_. 200) log_calm
       (v_runs (fold (life sample_libs) two_lives \<lparr>v_blobs = [], v_runs = one_run, v_files = []\<rparr>)) = Inr runs'
     \<and> map measured (take 1 runs') = [measured (stamp log_calm sample_run)]"
proof -
  have [simp]: "l_width sample_libs = (\<lambda>_. 200)" "l_digest sample_libs = checksum_stub" by (simp_all add: sample_libs_def)
  show ?thesis
    using restarts_keep_measurements [of sample_libs "\<lparr>v_blobs = [], v_runs = one_run, v_files = []\<rparr>"
        "[stamp log_calm sample_run]" default_max_blob_bytes two_lives log_calm] two_lives_ok bounded_width_const one_run_simps
    by (auto simp: typed_stamp checksum_stub_def Let_def)
qed

end
