(* ===== verification/Spec2Isabelle.thy ===== *)
theory Spec2Isabelle
  imports Restarts
begin

text \<open>
  A verification development for \<open>tlsbench\<close>, an HTTP and HTTPS target that measures TLS and disk
  throughput (\<open>cmd/server\<close>, \<open>internal/\<close>).

  \<^bold>\<open>The program.\<close>  \<open>cmd/server/main.go\<close> reads the configuration from the environment, opens the
  blob store and the results log, loads or generates the server certificate and serves two
  listeners with one handler.  Blobs are files with a SHA-256 sidecar in one directory; every
  generation, upload, download and handshake probe is recorded as a run, a line of JSON in the
  results log; a client may later post its own timings (from curl), which are merged into the one
  run they belong to by rewriting the log.  The TLS listener times handshakes and a tracker hands
  the time to the first request of each connection.

  \<^bold>\<open>Theories and code.\<close>
  \<^item> \<open>Prelude\<close>: strings, UTF-8, \<open>strings.TrimSpace\<close>, decimal numbers, 64-bit integers, errors as
    values (\<open>gerror\<close>), and the two interfaces \<open>framed\<close> and \<open>invariant_system\<close>.
  \<^item> \<open>Float64\<close>: the \<open>float64\<close> of Go as exact rationals with rounding to nearest even.
  \<^item> \<open>Timing\<close> (\<open>internal/timing\<close>): phases of curl times, and statistics.
  \<^item> \<open>Config\<close> (\<open>internal/config\<close>): \<open>FromEnv\<close> and its parsers.
  \<^item> \<open>Blobs\<close> (\<open>internal/blobs\<close>): \<open>store\<close> is the directory as an association list; \<open>io_env\<close> says
    which system call of an operation fails and what the clock and the random suffix are.
  \<^item> \<open>Results\<close> (\<open>internal/results\<close>): \<open>run\<close> with its JSON form, \<open>logger\<close> with the log file as a list
    of tokens (a JSON text, a newline, or a fragment of given length), appends, merges and pages.
  \<^item> \<open>Http\<close>: what the handlers use of \<open>net/http\<close> and \<open>net/url\<close>: headers, escapes, queries,
    path cleaning, and the choice of a handler by \<open>ServeMux\<close>.
  \<^item> \<open>Requestinfo\<close> (\<open>internal/requestinfo\<close>), \<open>Tlslisten\<close> (\<open>internal/tlslisten\<close>) and \<open>Certs\<close>
    (\<open>internal/certs\<close>): the report of a request, the listener with its tracker as a step relation, and
    the certificate files.
  \<^item> \<open>Server\<close> (\<open>internal/server\<close>): the handlers over \<open>app\<close> (what does not change) and \<open>state\<close>
    (store, log, tracker); \<open>serve\<close> is the whole handling of one request.
  \<^item> \<open>Requests\<close>: sequences of requests, and the store operation that each stands for; \<open>Recording\<close>: the
    types of what requests record, and the invariant of store and log under requests.
  \<^item> \<open>Lifecycle\<close>: \<open>run\<close>, \<open>New\<close>, \<open>ListenAndServe\<close>; the three goroutines are the function
    \<open>group_next\<close> on events, so that every interleaving is a list of events.
  \<^item> \<open>Restarts\<close>: one life of the process, from \<open>startup\<close> through the requests it serves, as a step on the
    volume (blobs, log, certificate files) that the next life finds.

  \<^bold>\<open>Interfaces.\<close>  \<open>record_codec\<close> is a struct with JSON tags, interpreted by the run record;
  \<open>framed\<close> is a keyed state whose operations leave other keys alone, interpreted by the blob store;
  \<open>invariant_system\<close> is a step function with an invariant, interpreted by the size limit and
  the file sizes of the store, by the contents of the log, by the whole server, and by the lives of the
  process on one volume.

  \<^bold>\<open>What the lemmas show.\<close>  For the store: exact outcomes when nothing fails, what any failure can
  leave, the size limit, and the refinement of a map from names to contents.  For the log: JSON
  round trip, append and read back, torn writes, merges that change one run, and that no
  measured value is lost as long as no appended line is cut short.  For the server: the guard covers every route that writes or hands out a blob,
  security headers, answers to uploads, result pages, and through \<open>Requests\<close> the store properties for
  any sequence of requests.  For the process: that measurements survive restarts, what a failed
  first start means for the next one, and that shutdown ends.

  \<^bold>\<open>Side conditions that matter.\<close>  The configuration accepts \<open>MAX_BLOB_BYTES\<close> = 2^63-1, at which an upload of
  unknown length stores an empty blob (\<open>put_limit_overflow\<close>): the properties of uploads are about smaller limits.
  The log keeps its runs as long as it ends in a complete line: the append after one that was cut short is
  lost (\<open>torn_line_swallows_next\<close>).  Blob names that end in \<open>.sha256\<close>, and the name ".", are excluded
  where sidecars and the directory itself get in the way (\<open>sidecar_replaces_blob\<close>,
  \<open>delete_dot_removes_directory\<close>).

  \<^bold>\<open>Parameters.\<close>  SHA-256, X.509, PEM and key generation, the cipher-suite tables, the
  file server of the embedded files, the JSON scanner and the length of JSON texts are arguments of
  the definitions; a property that needs something of them has it as a hypothesis (\<open>bounded_width\<close>: a run
  fits a line of the scanner, which holds as its strings are bounded).

  \<^bold>\<open>Bounds.\<close>  No definition uses fuel: every recursion is structural or has a measure.  Integers of Go
  are HOL integers with \<open>wrap64\<close> where a result can leave the 64-bit range; cipher suites and the
  request counter are words.

  \<^bold>\<open>Not modelled.\<close>  Log output; the byte syntax of JSON beyond values and widths; \<open>http.Server\<close>
  itself (framing, timeouts, HTTP/2, connection-level headers): a request arrives parsed, with its body and a flag
  for a body that breaks off, and of what \<open>net/http\<close> answers without the handler only undecodable targets (400) and
  \<open>OPTIONS *\<close> (200) are in \<open>serve\<close>; the nil tracker of \<open>tlslisten\<close>, which the server never passes; two requests at the same time on the store (each store operation is one step, though
  other operations may come between any two requests); durations, which the environment supplies;
  \<open>caKeyPath\<close>, which only a test calls; and everything that is not Go.
\<close>

section \<open>Properties of the whole server\<close>

text \<open>C1: What a client uploads is what a later client downloads, through routing, protection and handlers: with
  \<open>MAX_BLOB_BYTES\<close> below 2^63-1 (there an upload of unknown length stores an empty blob: \<open>put_limit_overflow\<close>), after
  an upload answered 200, and any requests that write neither that blob nor the file of its checksum, a GET of the
  same path by an allowed client, with nothing failing, is answered 200 with the whole body, its length and its checksum.\<close>

theorem upload_then_download:
  assumes "validate_name name = None" and "name \<noteq> ''.''"
    and "q_method up = ''PUT''" and "q_target up = blob_target name"
    and "p_status (fst (serve a env up st)) = 200"
    and "0 < st_max (s_store st)" and "st_max (s_store st) < max_int64"
    and "\<forall>x \<in> set tr. \<forall>op. trace_op x = Some op \<longrightarrow> \<not> touches op name \<and> \<not> touches op (hash_path name)"
    and "q_method down = ''GET''" and "q_target down = blob_target name"
    and "write_token (a_cfg a) = [] \<or> authorized a down"
    and "quiet (e_blob env')" and "\<not> e_copy_fails env'"
  shows "let p = fst (serve a env' down (serve_all a tr (snd (serve a env up st))))
     in p_status p = 200 \<and> p_body p = FileBody (q_body up)
        \<and> map_of (p_headers p) ''X-Blob-Sha256'' = Some (hex_encode (a_digest a (q_body up)))
        \<and> map_of (p_headers p) ''Content-Length'' = Some (itoa (int (length (q_body up))))"
proof -
  obtain i s' where up: "put (e_blob env) (a_digest a) (s_store st) name \<lparr>rd_bytes = q_body up, rd_fails = q_body_fails up\<rparr>
      (if 0 < q_length up then q_length up else 0) = (Inr i, s')" "s_store (snd (serve a env up st)) = s'"
    using upload_served [OF assms(3,4,1,2,5)] by blast
  obtain ops where ops: "s_store (serve_all a tr (snd (serve a env up st))) = fold (store_step (a_digest a)) ops s'"
    "list_all (\<lambda>op. \<not> touches op name \<and> \<not> touches op (hash_path name)) ops"
    by (rule trace_store_all [OF assms(8), where a = a and st = "snd (serve a env up st)"]) (simp add: up(2))
  from upload_kept [OF up(1) assms(6,7) ops(2) assms(12)] assms(13) show ?thesis
    using download_served [OF assms(9,10,1,2,11)]
    by (simp add: download_blob_def ops(1) Let_def set_header_def update_conv')
qed

lemma upload_then_download_witness:
  "p_body (fst (serve sample_app sample_env (bearer (sample_request\<lparr>q_target := blob_target ''a''\<rparr>))
     (snd (serve sample_app sample_env (bearer sample_put) sample_state)))) = FileBody ''hello''"
proof -
  have "p_status (fst (serve sample_app sample_env (bearer sample_put) sample_state)) = 200"
    using sample_upload_status .
  then show ?thesis
    using upload_then_download [of "''a''" "bearer sample_put" sample_app sample_env sample_state "[]"
        "bearer (sample_request\<lparr>q_target := blob_target ''a''\<rparr>)" sample_env]
    by (simp add: sample_request_def Let_def)
qed

text \<open>C3: No sequence of requests ever leaves a blob larger than \<open>MAX_BLOB_BYTES\<close> in the store, whatever their
  methods, targets, lengths and bodies, and whichever system calls fail, the removal of a temporary
  file excepted.\<close>

theorem server_blob_size_limit:
  assumes "within_limit (s_store st)" and "\<forall>(env, r) \<in> set tr. \<not> io_fails (e_blob env) RemoveTemp"
  shows "within_limit (s_store (serve_all a tr st))"
  using assms by (rule served_within_limit(1))

lemma server_blob_size_limit_witness:
  "within_limit (s_store (serve_all sample_app [(sample_env, bearer sample_put), (sample_env, sample_put)] sample_state))"
  by (rule server_blob_size_limit)
     (simp_all add: within_limit_def small_store_def stored_def calm_def)

text \<open>C4: No request costs a measurement.  Whatever sequence of requests the server handles, and whichever system
  calls fail, as long as no appended line is cut short and no temporary file stays behind: the log remains
  readable, and what the server measured of every run it held at the start is still there, in order.\<close>

theorem server_keeps_measurements:
  assumes "bounded_width (a_width a)" and "closed_logger (s_log st)"
    and "contents (a_width a) (s_log st) = Some runs" and "list_all typed_run runs"
    and "sizes_ok (a_digest a) (s_store st)"
    and "list_all (server_event_ok a) tr" and "readable env"
  shows "\<exists>runs'. read_all_unlocked (a_width a) env (s_log (serve_all a tr st)) = Inr runs'
      \<and> length runs \<le> length runs' \<and> map measured (take (length runs) runs') = map measured runs"
proof -
  have "server_inv a (map measured runs) st"
    using assms(1-5) by (simp add: server_inv_def log_inv_def prefix_of_def)
  then have "server_inv a (map measured runs) (serve_all a tr st)"
    using assms(6) by (rule server_run.run_inv)
  then show ?thesis using log_inv_read [OF _ assms(7)] by (simp add: server_inv_def)
qed

lemma server_keeps_measurements_witness:
  "\<exists>runs'. read_all_unlocked (\<lambda>_. 200) log_calm
      (s_log (serve_all sample_app [(sample_env, bearer sample_put), (sample_env, sample_put)] (sample_state\<lparr>s_log := one_run\<rparr>))) = Inr runs'
     \<and> map measured (take 1 runs') = [measured (stamp log_calm sample_run)]"
proof -
  have "typed_source sample_app x" if "q_remote x = ''[fd00::7]:4433''" "q_tls x = None" for x
    using that sample_source by simp
  then have "list_all (server_event_ok sample_app) [(sample_env, bearer sample_put), (sample_env, sample_put)]"
    by (simp add: calm_def log_calm_def sample_put_def sample_request_def bearer_def)
  moreover have "sizes_ok checksum_stub small_store"
    by (simp add: sizes_ok_def checksum_stub_def small_store_def stored_def)
  ultimately show ?thesis
    using server_keeps_measurements [of sample_app "sample_state\<lparr>s_log := one_run\<rparr>" "[stamp log_calm sample_run]"
        "[(sample_env, bearer sample_put), (sample_env, sample_put)]" log_calm]
      bounded_width_const one_run_simps
    by (auto simp: typed_stamp)
qed

text \<open>Reading requests never write a blob: a GET or HEAD request, to whatever target, leaves the store as
  it is, and no request other than a PUT, a DELETE or a generation can change it.\<close>

theorem reads_keep_store:
  assumes "q_method r \<notin> {''PUT'', ''POST'', ''DELETE''}"
  shows "s_store (snd (serve a env r st)) = s_store st"
  using serve_store [of a env r st] assms request_op_method [of env r] by fastforce

lemma reads_keep_store_witness:
  "s_store (snd (serve sample_app sample_env (bearer (sample_request\<lparr>q_target := ''/api/bench/probe''\<rparr>)) sample_state)) = small_store"
  by (subst reads_keep_store) (simp_all add: sample_request_def)

end
